theory Spec2Isabelle
  imports Complex_Main "HOL-Library.Word" "HOL-Library.Signed_Division"
begin

text \<open>
  A model of the AirGradient display-control sketch
  (\<^verbatim>\<open>arduino/airgraident_displaycontrol.ino\<close>): the conversion of a PM2.5 reading to the
  US air quality index, the four-phase display cycle with its ring of uploaded bitmaps,
  the HTTP handlers that fill the ring and the remote summary, and the metrics text.
  The definitions follow the source function by function; the results on them come last.
\<close>

section \<open>Binary floating point\<close>

text \<open>
  The sketch computes the air quality index in \<^verbatim>\<open>float\<close> (IEEE binary32) and compares
  against \<^verbatim>\<open>double\<close> literals (binary64). A finite floating-point number is modelled by
  the rational it denotes, and every arithmetic operation by the exact operation followed
  by rounding to the nearest representable number, ties to even. The exponent of a number
  is found by repeated halving or doubling; the fuel of that search is the exponent range
  of the format, so that numbers below the smallest normal number get the subnormal
  spacing. Infinities and NaN are not modelled: no operation of the index computation
  reaches the largest finite number.
\<close>

fun ilog2_up :: "nat \<Rightarrow> rat \<Rightarrow> int" where
  "ilog2_up 0 x = 0"
| "ilog2_up (Suc n) x = (if 2 \<le> x then 1 + ilog2_up n (x / 2) else 0)"

fun ilog2_down :: "nat \<Rightarrow> rat \<Rightarrow> int" where
  "ilog2_down 0 x = 0"
| "ilog2_down (Suc n) x = (if x < 1 then ilog2_down n (2 * x) - 1 else 0)"

text \<open>The exponent \<open>e\<close> of a positive \<open>x\<close>: \<open>2^e \<le> x < 2^(e+1)\<close>, kept within
  \<open>1 - emax \<dots> emax\<close>.\<close>

definition fexp :: "nat \<Rightarrow> rat \<Rightarrow> int" where
  "fexp emax x = (if 1 \<le> x then ilog2_up emax x else ilog2_down (emax - 1) x)"

definition pow2 :: "int \<Rightarrow> rat" where
  "pow2 e = (if 0 \<le> e then 2 ^ nat e else 1 / 2 ^ nat (- e))"

text \<open>Rounding to the nearest integer, ties to the even one.\<close>

definition half_even :: "rat \<Rightarrow> int" where
  "half_even x =
     (let f = \<lfloor>x\<rfloor>; r = x - of_int f
      in if r < 1 / 2 then f else if 1 / 2 < r then f + 1 else if even f then f else f + 1)"

text \<open>Rounding to a format with \<open>p\<close> significant bits and largest exponent \<open>emax\<close>.\<close>

definition fround :: "nat \<Rightarrow> nat \<Rightarrow> rat \<Rightarrow> rat" where
  "fround p emax x =
     (if x = 0 then 0
      else let q = pow2 (fexp emax \<bar>x\<bar> - int p + 1) in of_int (half_even (x / q)) * q)"

definition flt :: "rat \<Rightarrow> rat" where
  "flt = fround 24 127"

definition dbl :: "rat \<Rightarrow> rat" where
  "dbl = fround 53 1023"

text \<open>
  \<^verbatim>\<open>round\<close> rounds to the nearest integer, ties away from zero (both as the Arduino macro
  \<^verbatim>\<open>((x)>=0?(long)((x)+0.5):(long)((x)-0.5))\<close> and as the C library function);
  the conversion \<^verbatim>\<open>int(x)\<close> truncates towards zero.
\<close>

definition c_round :: "rat \<Rightarrow> int" where
  "c_round x = (if 0 \<le> x then \<lfloor>x + 1 / 2\<rfloor> else - \<lfloor>- x + 1 / 2\<rfloor>)"

definition c_trunc :: "rat \<Rightarrow> int" where
  "c_trunc x = (if 0 \<le> x then \<lfloor>x\<rfloor> else - \<lfloor>- x\<rfloor>)"

section \<open>The AQI conversion\<close>

text \<open>
  \<^verbatim>\<open>
  int calcAQI(int Cp, int Ih, int Il, float BPh, float BPl) {
    float a = (Ih - Il);
    float b = (BPh - BPl);
    float c = (Cp - BPl);
    return int(round(a / b) * c + Il);
  }
  \<close>
  The integer operands are converted to \<^verbatim>\<open>float\<close> before each mixed operation.
\<close>

definition calcAQI :: "int \<Rightarrow> int \<Rightarrow> int \<Rightarrow> rat \<Rightarrow> rat \<Rightarrow> int" where
  "calcAQI Cp Ih Il BPh BPl =
     (let a = flt (of_int (Ih - Il));
          b = flt (BPh - BPl);
          c = flt (flt (of_int Cp) - BPl)
      in c_trunc (flt (flt (flt (of_int (c_round (flt (a / b)))) * c) + flt (of_int Il))))"

text \<open>
  \<^verbatim>\<open>
  int PM_TO_AQI_US(int pm) {
    if (pm < 0) return pm;
    if (pm > 1000) { return 500; }
    if (pm > 350.5) { return calcAQI(pm, 500, 401, 500.4, 350.5); }
    else if (pm > 250.5) { return calcAQI(pm, 400, 301, 350.4, 250.5); }
    else if (pm > 150.5) { return calcAQI(pm, 300, 201, 250.4, 150.5); }
    else if (pm > 55.5) { return calcAQI(pm, 200, 151, 150.4, 55.5); }
    else if (pm > 35.5) { return calcAQI(pm, 150, 101, 55.4, 35.5); }
    else if (pm > 12.1) { return calcAQI(pm, 100, 51, 35.4, 12.1); }
    else { return calcAQI(pm, 50, 0, 12, 0); }
  }
  \<close>
  The comparisons are made in \<^verbatim>\<open>double\<close> (a 32-bit \<^verbatim>\<open>int\<close> converts exactly); the
  breakpoints are \<^verbatim>\<open>double\<close> literals converted to the \<^verbatim>\<open>float\<close> parameters.
\<close>

definition PM_TO_AQI_US :: "int \<Rightarrow> int" where
  "PM_TO_AQI_US pm =
     (if pm < 0 then pm
      else if pm > 1000 then 500
      else if of_int pm > dbl (3505 / 10)
        then calcAQI pm 500 401 (flt (dbl (5004 / 10))) (flt (dbl (3505 / 10)))
      else if of_int pm > dbl (2505 / 10)
        then calcAQI pm 400 301 (flt (dbl (3504 / 10))) (flt (dbl (2505 / 10)))
      else if of_int pm > dbl (1505 / 10)
        then calcAQI pm 300 201 (flt (dbl (2504 / 10))) (flt (dbl (1505 / 10)))
      else if of_int pm > dbl (555 / 10)
        then calcAQI pm 200 151 (flt (dbl (1504 / 10))) (flt (dbl (555 / 10)))
      else if of_int pm > dbl (355 / 10)
        then calcAQI pm 150 101 (flt (dbl (554 / 10))) (flt (dbl (355 / 10)))
      else if of_int pm > dbl (121 / 10)
        then calcAQI pm 100 51 (flt (dbl (354 / 10))) (flt (dbl (121 / 10)))
      else calcAQI pm 50 0 (flt 12) (flt 0))"

text \<open>
  The conversion as the specification words it, in exact rational arithmetic: the band is
  chosen by strict comparisons against the descending thresholds, the slope
  \<open>(I_high - I_low) / (BP_high - BP_low)\<close> is rounded to an integer, multiplied by the
  distance to the lower breakpoint, offset by \<open>I_low\<close>, and the result is truncated. The
  specification names no breakpoint values; they are those of the calls in the source.
\<close>

definition aqi_band_spec :: "rat \<Rightarrow> int \<times> int \<times> rat \<times> rat" where
  "aqi_band_spec raw =
     (if raw > 3505 / 10 then (500, 401, 5004 / 10, 3505 / 10)
      else if raw > 2505 / 10 then (400, 301, 3504 / 10, 2505 / 10)
      else if raw > 1505 / 10 then (300, 201, 2504 / 10, 1505 / 10)
      else if raw > 555 / 10 then (200, 151, 1504 / 10, 555 / 10)
      else if raw > 355 / 10 then (150, 101, 554 / 10, 355 / 10)
      else if raw > 121 / 10 then (100, 51, 354 / 10, 121 / 10)
      else (50, 0, 12, 0))"

definition pm_to_aqi_spec :: "int \<Rightarrow> int" where
  "pm_to_aqi_spec raw =
     (if raw < 0 then raw
      else if raw > 1000 then 500
      else case aqi_band_spec (of_int raw) of (I_high, I_low, BP_high, BP_low) \<Rightarrow>
        c_trunc (of_int (c_round (of_int (I_high - I_low) / (BP_high - BP_low)))
                   * (of_int raw - BP_low) + of_int I_low))"

text \<open>The values of the conversion on \<open>0 \<dots> 1000\<close>, band by band.\<close>

definition aqi_closed :: "int \<Rightarrow> int" where
  "aqi_closed pm =
     (if pm \<le> 12 then 4 * pm
      else if pm \<le> 35 then 2 * pm + 26
      else if pm \<le> 55 then 2 * pm + 30
      else if pm \<le> 150 then pm + 95
      else pm + 50)"

section \<open>The state of the sketch\<close>

text \<open>
  The global variables of the sketch. \<^verbatim>\<open>unsigned long\<close> and \<^verbatim>\<open>unsigned int\<close> are 32 bits
  wide on the ESP8266, so the millisecond clock and everything compared with it are
  \<open>32 word\<close>: subtraction and negation wrap around and comparison is unsigned.
  \<^verbatim>\<open>last_updated\<close> is declared \<^verbatim>\<open>long\<close>, but it only receives the clock and is converted
  back to \<^verbatim>\<open>unsigned long\<close> where it is used, so it holds the same 32 bits. The plain
  \<^verbatim>\<open>int\<close> variables never leave a small range and are \<open>int\<close>; \<^verbatim>\<open>%\<close> truncates
  towards zero and is \<open>smod\<close>. Strings are byte lists.
\<close>

type_synonym millis = "32 word"

definition DISPLAY_IMG_BYTE_LEN :: nat where
  "DISPLAY_IMG_BYTE_LEN = 1024"

definition MAX_DISPLAY_IMG :: nat where
  "MAX_DISPLAY_IMG = 20"

text \<open>\<^verbatim>\<open>const int customDisplayMaxAge = 60 * 60 * 1000\<close>, converted to
  \<^verbatim>\<open>unsigned long\<close> in each comparison.\<close>

definition customDisplayMaxAge :: millis where
  "customDisplayMaxAge = 60 * 60 * 1000"

record display_image =
  display :: string
  active :: bool
  last_updated :: millis

record sketch =
  currentMillis :: millis
  display_last_set :: millis
  oledInterval :: millis
  previousOled :: millis
  TVOC :: int
  NOX :: int
  Co2 :: int
  pm25 :: int
  tempf :: rat
  hum :: int
  custom_watt :: string
  custom_wattavg :: string
  custom_water :: string
  custom_watertoday :: string
  custom_garage :: string
  custom_garagetime :: string
  dimg :: "display_image list"
  displayActive :: int
  displayCycle :: int

text \<open>The state after the initialisers of the globals: every slot inactive and zeroed.\<close>

definition boot :: sketch where
  "boot = \<lparr>currentMillis = 0, display_last_set = 0, oledInterval = 5000, previousOled = 0,
     TVOC = 0, NOX = 0, Co2 = 0, pm25 = 0, tempf = 0, hum = 0,
     custom_watt = [], custom_wattavg = [], custom_water = [], custom_watertoday = [],
     custom_garage = [], custom_garagetime = [],
     dimg = replicate MAX_DISPLAY_IMG
       \<lparr>display = replicate DISPLAY_IMG_BYTE_LEN (CHR 0x00), active = False, last_updated = 0\<rparr>,
     displayActive = 0, displayCycle = 0\<rparr>"

text \<open>
  The configuration section of the sketch (the capability flags and the device id, all
  \<^verbatim>\<open>true\<close> and empty as shipped), and what the board supplies: the MAC address and the
  library's rendering of a \<^verbatim>\<open>float\<close> as text.
\<close>

record config =
  hasPM :: bool
  hasCO2 :: bool
  hasSHT :: bool
  hasSGP41 :: bool
  deviceId :: string

definition shipped_config :: config where
  "shipped_config = \<lparr>hasPM = True, hasCO2 = True, hasSHT = True, hasSGP41 = True, deviceId = []\<rparr>"

record board =
  macAddress :: string
  String_float :: "rat \<Rightarrow> string"

section \<open>The display cycle\<close>

text \<open>What is drawn on the OLED: the built-in summary (\<^verbatim>\<open>drawScreen1\<close>), the remote
  summary (\<^verbatim>\<open>drawScreen2\<close>) or the uploaded bitmap of a slot (\<^verbatim>\<open>drawCustomScreen\<close>).\<close>

datatype screen = Screen1 | Screen2 | CustomScreen int

text \<open>Reading \<^verbatim>\<open>dimg[k]\<close>. Outside the array the behaviour of the C program is undefined:
  the model has no result there.\<close>

definition slot_at :: "display_image list \<Rightarrow> int \<Rightarrow> display_image option" where
  "slot_at d k = (if 0 \<le> k \<and> k < int (length d) then Some (d ! nat k) else None)"

definition drawCustomScreen :: "sketch \<Rightarrow> int \<Rightarrow> screen option" where
  "drawCustomScreen st index = map_option (\<lambda>im. CustomScreen index) (slot_at (dimg st) index)"

text \<open>The test of the scan:
  \<^verbatim>\<open>dimg[displayActive].active && (currentMillis - dimg[displayActive].last_updated < customDisplayMaxAge)\<close>.\<close>

definition displayable :: "sketch \<Rightarrow> display_image \<Rightarrow> bool" where
  "displayable st im \<longleftrightarrow> active im \<and> currentMillis st - last_updated im < customDisplayMaxAge"

text \<open>
  \<^verbatim>\<open>
  bool drew_screen = false;
  for (int i = 0; i < MAX_DISPLAY_IMG; i++) {
    displayActive = (displayActive + 1) % MAX_DISPLAY_IMG;
    if (dimg[displayActive].active && (... < customDisplayMaxAge)) {
      drawCustomScreen(displayActive);
      drew_screen = true;
      break;
    }
  }
  \<close>
  The first argument counts the iterations that are left; the result is the state, what
  was drawn, and \<^verbatim>\<open>drew_screen\<close>.
\<close>

fun scan_displays :: "nat \<Rightarrow> sketch \<Rightarrow> (sketch \<times> screen list \<times> bool) option" where
  "scan_displays 0 st = Some (st, [], False)"
| "scan_displays (Suc n) st =
     (let st1 = st\<lparr>displayActive := (displayActive st + 1) smod int MAX_DISPLAY_IMG\<rparr>
      in case slot_at (dimg st1) (displayActive st1) of
           None \<Rightarrow> None
         | Some im \<Rightarrow>
             if displayable st1 im
             then (case drawCustomScreen st1 (displayActive st1) of
                     None \<Rightarrow> None
                   | Some s \<Rightarrow> Some (st1, [s], True))
             else scan_displays n st1)"

text \<open>The block \<^verbatim>\<open>if (displayCycle == 1 || displayCycle == 3) { ... }\<close>.\<close>

definition oled_custom :: "sketch \<Rightarrow> (sketch \<times> screen list) option" where
  "oled_custom st =
     (if displayCycle st = 1 \<or> displayCycle st = 3
      then (case scan_displays MAX_DISPLAY_IMG st of
              None \<Rightarrow> None
            | Some (st1, out, drew_screen) \<Rightarrow>
                if \<not> drew_screen
                then Some (st1\<lparr>displayCycle := (displayCycle st1 + 1) smod 4\<rparr>, out)
                else Some (st1, out))
      else Some (st, []))"

text \<open>The test of the remote summary, as the source has it:
  \<^verbatim>\<open>(display_last_set > 0) && (currentMillis - -display_last_set < customDisplayMaxAge)\<close>.\<close>

definition screen2_test :: "sketch \<Rightarrow> bool" where
  "screen2_test st \<longleftrightarrow>
     0 < display_last_set st \<and> currentMillis st - (- display_last_set st) < customDisplayMaxAge"

text \<open>The block \<^verbatim>\<open>if (displayCycle == 2) { ... }\<close>.\<close>

definition oled_screen2 :: "sketch \<Rightarrow> sketch \<times> screen list" where
  "oled_screen2 st =
     (if displayCycle st = 2
      then (if screen2_test st then (st, [Screen2]) else (st\<lparr>displayCycle := 0\<rparr>, []))
      else (st, []))"

text \<open>The block \<^verbatim>\<open>if (displayCycle == 0) { drawScreen1(); }\<close>.\<close>

definition oled_screen1 :: "sketch \<Rightarrow> sketch \<times> screen list" where
  "oled_screen1 st = (if displayCycle st = 0 then (st, [Screen1]) else (st, []))"

text \<open>
  \<^verbatim>\<open>updateOLED\<close>: when the interval has elapsed, the timer advances by one interval, the
  phase by one step, and the three blocks run one after the other. The result is the
  new state and the screens drawn, in order.
\<close>

definition updateOLED :: "sketch \<Rightarrow> (sketch \<times> screen list) option" where
  "updateOLED st =
     (if currentMillis st - previousOled st \<ge> oledInterval st
      then (let st1 = st\<lparr>previousOled := previousOled st + oledInterval st\<rparr>;
                st2 = st1\<lparr>displayCycle := (displayCycle st1 + 1) smod 4\<rparr>
            in case oled_custom st2 of
                 None \<Rightarrow> None
               | Some (st3, out1) \<Rightarrow>
                   (case oled_screen2 st3 of (st4, out2) \<Rightarrow>
                      (case oled_screen1 st4 of (st5, out3) \<Rightarrow> Some (st5, out1 @ out2 @ out3))))
      else Some (st, []))"

text \<open>The freshness of the remote summary as the specification defines it:
  \<open>last_set > 0\<close> and \<open>now - last_set < max_age\<close>.\<close>

definition is_fresh_spec :: "sketch \<Rightarrow> bool" where
  "is_fresh_spec st \<longleftrightarrow>
     0 < display_last_set st \<and> currentMillis st - display_last_set st < customDisplayMaxAge"

text \<open>The slot indices in increasing cyclic order, starting after the cursor.\<close>

definition cyclic_after :: "int \<Rightarrow> int list" where
  "cyclic_after c = map (\<lambda>j. (c + 1 + int j) mod int MAX_DISPLAY_IMG) [0..<MAX_DISPLAY_IMG]"

section \<open>The HTTP handlers\<close>

text \<open>
  A request as the web server hands it to a handler: the arguments are the form fields
  in the order received; \<^verbatim>\<open>hasArg\<close> and \<^verbatim>\<open>arg\<close> find the first field of a name, and
  \<^verbatim>\<open>arg\<close> is the empty string when there is none.
\<close>

datatype http_method = HTTP_GET | HTTP_POST | HTTP_OTHER

record http_request =
  req_method :: http_method
  req_uri :: string
  req_args :: "(string \<times> string) list"

record http_response =
  status :: nat
  content_type :: string
  body :: string

definition hasArg :: "(string \<times> string) list \<Rightarrow> string \<Rightarrow> bool" where
  "hasArg as name \<longleftrightarrow> map_of as name \<noteq> None"

definition server_arg :: "(string \<times> string) list \<Rightarrow> string \<Rightarrow> string" where
  "server_arg as name = (case map_of as name of Some v \<Rightarrow> v | None \<Rightarrow> [])"

text \<open>\<^verbatim>\<open>String(n)\<close> for an integer: its decimal digits.\<close>

definition digit_char :: "nat \<Rightarrow> char" where
  "digit_char d = ''0123456789'' ! d"

function String_nat :: "nat \<Rightarrow> string" where
  "String_nat n = (if n < 10 then [digit_char n] else String_nat (n div 10) @ [digit_char (n mod 10)])"
  by pat_completeness auto
termination
  by (relation "measure id") auto

declare String_nat.simps [simp del]

definition String_int :: "int \<Rightarrow> string" where
  "String_int i = (if i < 0 then CHR ''-'' # String_nat (nat (- i)) else String_nat (nat i))"

text \<open>
  \<^verbatim>\<open>atoi\<close> of the C library: white space is skipped, then an optional sign and the
  decimal digits up to the first other character are read. A value outside \<^verbatim>\<open>int\<close> is
  undefined in C; the model keeps the mathematical value, which the assignment to
  \<^verbatim>\<open>unsigned int\<close> reduces modulo \<open>2^32\<close>.
\<close>

definition isspace :: "char \<Rightarrow> bool" where
  "isspace c \<longleftrightarrow> c = CHR '' '' \<or> (9 \<le> (of_char c :: nat) \<and> (of_char c :: nat) \<le> 13)"

fun atoi_digits :: "int \<Rightarrow> string \<Rightarrow> int" where
  "atoi_digits acc [] = acc"
| "atoi_digits acc (c # cs) =
     (if 48 \<le> (of_char c :: nat) \<and> (of_char c :: nat) \<le> 57
      then atoi_digits (acc * 10 + (of_char c - 48)) cs
      else acc)"

definition atoi :: "string \<Rightarrow> int" where
  "atoi s =
     (case dropWhile isspace s of
        [] \<Rightarrow> 0
      | c # cs \<Rightarrow>
          if c = CHR ''-'' then - atoi_digits 0 cs
          else if c = CHR ''+'' then atoi_digits 0 cs
          else atoi_digits 0 (c # cs))"

text \<open>
  One iteration of the loop of \<^verbatim>\<open>HandleDisplayUpload\<close>, for slot \<open>i\<close>:
  \<^verbatim>\<open>
  String argName = "d" + String(i);
  if (!server.hasArg(argName)) { continue; }
  if (server.arg(argName).length() == 0) {
    dimg[i].active = false;
    retval += "SUCCESS: " + argName + " emptied.\n";
  } else if (server.arg(argName).length() != DISPLAY_IMG_BYTE_LEN) {
    retval += "ERROR: " + argName + " invalid length.\n";
    dimg[i].active = false;
  } else {
    String argVal = server.arg(argName);
    memcpy(dimg[i].display, argVal.c_str(), DISPLAY_IMG_BYTE_LEN);
    dimg[i].active = true;
    dimg[i].last_updated = currentMillis;
    retval += "SUCCESS: " + argName + " updated.\n";
  }
  \<close>
\<close>

definition upload_slot :: "(string \<times> string) list \<Rightarrow> sketch \<times> string \<Rightarrow> nat \<Rightarrow> sketch \<times> string" where
  "upload_slot as acc i =
     (case acc of (st, retval) \<Rightarrow>
        let argName = ''d'' @ String_int (int i)
        in if \<not> hasArg as argName then (st, retval)
           else if length (server_arg as argName) = 0
           then (st\<lparr>dimg := (dimg st)[i := (dimg st ! i)\<lparr>active := False\<rparr>]\<rparr>,
                 retval @ ''SUCCESS: '' @ argName @ '' emptied.\<newline>'')
           else if length (server_arg as argName) \<noteq> DISPLAY_IMG_BYTE_LEN
           then (st\<lparr>dimg := (dimg st)[i := (dimg st ! i)\<lparr>active := False\<rparr>]\<rparr>,
                 retval @ ''ERROR: '' @ argName @ '' invalid length.\<newline>'')
           else (let argVal = server_arg as argName
                 in (st\<lparr>dimg := (dimg st)[i := (dimg st ! i)
                           \<lparr>display := take DISPLAY_IMG_BYTE_LEN argVal, active := True,
                            last_updated := currentMillis st\<rparr>]\<rparr>,
                     retval @ ''SUCCESS: '' @ argName @ '' updated.\<newline>'')))"

definition HandleDisplayUpload :: "(string \<times> string) list \<Rightarrow> sketch \<Rightarrow> sketch \<times> http_response" where
  "HandleDisplayUpload as st =
     (case foldl (upload_slot as) (st, ''Screen Update Results:\<newline>'') [0..<MAX_DISPLAY_IMG] of
        (st', retval) \<Rightarrow> (st', \<lparr>status = 200, content_type = ''text/html'', body = retval\<rparr>))"

text \<open>The line of the upload report for slot \<open>i\<close>.\<close>

definition upload_report :: "(string \<times> string) list \<Rightarrow> nat \<Rightarrow> string" where
  "upload_report as i =
     (let argName = ''d'' @ String_int (int i)
      in if \<not> hasArg as argName then []
         else if server_arg as argName = [] then ''SUCCESS: '' @ argName @ '' emptied.\<newline>''
         else if length (server_arg as argName) \<noteq> DISPLAY_IMG_BYTE_LEN
         then ''ERROR: '' @ argName @ '' invalid length.\<newline>''
         else ''SUCCESS: '' @ argName @ '' updated.\<newline>'')"

text \<open>
  \<^verbatim>\<open>HandleDisplaySet\<close>: the time stamp first, then one \<^verbatim>\<open>if (server.hasArg(...))\<close>
  after the other.
\<close>

definition HandleDisplaySet :: "(string \<times> string) list \<Rightarrow> sketch \<Rightarrow> sketch \<times> http_response" where
  "HandleDisplaySet as st =
     (let st = st\<lparr>display_last_set := currentMillis st\<rparr>;
          st = (if hasArg as ''watt'' then st\<lparr>custom_watt := server_arg as ''watt''\<rparr> else st);
          st = (if hasArg as ''wattavg'' then st\<lparr>custom_wattavg := server_arg as ''wattavg''\<rparr> else st);
          st = (if hasArg as ''water'' then st\<lparr>custom_water := server_arg as ''water''\<rparr> else st);
          st = (if hasArg as ''watertoday''
                then st\<lparr>custom_watertoday := server_arg as ''watertoday''\<rparr> else st);
          st = (if hasArg as ''garage'' then st\<lparr>custom_garage := server_arg as ''garage''\<rparr> else st);
          st = (if hasArg as ''garagetime''
                then st\<lparr>custom_garagetime := server_arg as ''garagetime''\<rparr> else st);
          st = (if hasArg as ''oledInterval''
                then st\<lparr>oledInterval := word_of_int (atoi (server_arg as ''oledInterval''))\<rparr> else st)
      in (st, \<lparr>status = 200, content_type = ''text/html'', body = ''Thank you.\<newline>''\<rparr>))"

section \<open>The metrics text\<close>

text \<open>
  \<^verbatim>\<open>GenerateMetrics\<close> appends to \<^verbatim>\<open>message\<close> statement by statement. Each sensor block
  stands under its own \<^verbatim>\<open>if (has... && value >= 0)\<close> and is a function of the message so
  far; the uptime lines follow unconditionally.
\<close>

definition metrics_pm :: "config \<Rightarrow> string \<Rightarrow> sketch \<Rightarrow> string \<Rightarrow> string" where
  "metrics_pm cfg idString st message =
     (if hasPM cfg \<and> pm25 st \<ge> 0
      then (let message = message @ ''# HELP aqi Particulate Matter AQI value\<newline>'';
                message = message @ ''# TYPE aqi gauge\<newline>'';
                message = message @ ''aqi'';
                message = message @ idString;
                message = message @ String_int (PM_TO_AQI_US (pm25 st));
                message = message @ ''\<newline>'';
                message = message @ ''# HELP pm025 Particulate Matter PM2.5 value\<newline>'';
                message = message @ ''# TYPE pm025 gauge\<newline>'';
                message = message @ ''pm025'';
                message = message @ idString;
                message = message @ String_int (pm25 st)
            in message @ ''\<newline>'')
      else message)"

definition metrics_nox :: "config \<Rightarrow> string \<Rightarrow> sketch \<Rightarrow> string \<Rightarrow> string" where
  "metrics_nox cfg idString st message =
     (if hasSGP41 cfg \<and> NOX st \<ge> 0
      then (let message = message @ ''# HELP nox Nitrogen Oxides (NOx) value\<newline>'';
                message = message @ ''# TYPE nox gauge\<newline>'';
                message = message @ ''nox'';
                message = message @ idString;
                message = message @ String_int (NOX st)
            in message @ ''\<newline>'')
      else message)"

definition metrics_tvoc :: "config \<Rightarrow> string \<Rightarrow> sketch \<Rightarrow> string \<Rightarrow> string" where
  "metrics_tvoc cfg idString st message =
     (if hasSGP41 cfg \<and> TVOC st \<ge> 0
      then (let message = message
                  @ ''# HELP tvoc Total volatile organic compounds (TVOC) value\<newline>'';
                message = message @ ''# TYPE tvoc gauge\<newline>'';
                message = message @ ''tvoc'';
                message = message @ idString;
                message = message @ String_int (TVOC st)
            in message @ ''\<newline>'')
      else message)"

definition metrics_co2 :: "config \<Rightarrow> string \<Rightarrow> sketch \<Rightarrow> string \<Rightarrow> string" where
  "metrics_co2 cfg idString st message =
     (if hasCO2 cfg \<and> Co2 st \<ge> 0
      then (let message = message @ ''# HELP rco2 CO2 value, in ppm\<newline>'';
                message = message @ ''# TYPE rco2 gauge\<newline>'';
                message = message @ ''rco2'';
                message = message @ idString;
                message = message @ String_int (Co2 st)
            in message @ ''\<newline>'')
      else message)"

definition metrics_atmp :: "config \<Rightarrow> board \<Rightarrow> string \<Rightarrow> sketch \<Rightarrow> string \<Rightarrow> string" where
  "metrics_atmp cfg bd idString st message =
     (if hasSHT cfg \<and> tempf st \<ge> 0
      then (let message = message @ ''# HELP atmp Temperature, in degrees Fahrenheit\<newline>'';
                message = message @ ''# TYPE atmp gauge\<newline>'';
                message = message @ ''atmp'';
                message = message @ idString;
                message = message @ String_float bd (tempf st)
            in message @ ''\<newline>'')
      else message)"

definition metrics_rhum :: "config \<Rightarrow> string \<Rightarrow> sketch \<Rightarrow> string \<Rightarrow> string" where
  "metrics_rhum cfg idString st message =
     (if hasSHT cfg \<and> hum st \<ge> 0
      then (let message = message @ ''# HELP rhum Relative humidity, in percent\<newline>'';
                message = message @ ''# TYPE rhum gauge\<newline>'';
                message = message @ ''rhum'';
                message = message @ idString;
                message = message @ String_int (hum st)
            in message @ ''\<newline>'')
      else message)"

definition metrics_uptime :: "string \<Rightarrow> sketch \<Rightarrow> string \<Rightarrow> string" where
  "metrics_uptime idString st message =
     (let message = message @ ''# HELP uptimesec Seconds since boot\<newline>'';
          message = message @ ''# TYPE uptimesec gauge\<newline>'';
          message = message @ ''uptimesec'';
          message = message @ idString;
          message = message @ String_nat (unat (currentMillis st div 1000))
      in message @ ''\<newline>'')"

definition GenerateMetrics :: "config \<Rightarrow> board \<Rightarrow> sketch \<Rightarrow> string" where
  "GenerateMetrics cfg bd st =
     (let message = [];
          idString = ''{id='' @ [CHR 0x22] @ deviceId cfg @ [CHR 0x22] @ '',mac='' @ [CHR 0x22]
                       @ macAddress bd @ [CHR 0x22] @ ''} '';
          message = metrics_pm cfg idString st message;
          message = metrics_nox cfg idString st message;
          message = metrics_tvoc cfg idString st message;
          message = metrics_co2 cfg idString st message;
          message = metrics_atmp cfg bd idString st message;
          message = metrics_rhum cfg idString st message;
          message = metrics_uptime idString st message
      in message)"

text \<open>A metric block: the help line, the type line and the sample line of one quantity.\<close>

definition metric_block :: "string \<Rightarrow> string \<Rightarrow> string \<Rightarrow> string \<Rightarrow> string" where
  "metric_block idString name help val =
     ''# HELP '' @ name @ '' '' @ help @ ''\<newline># TYPE '' @ name @ '' gauge\<newline>''
       @ name @ idString @ val @ ''\<newline>''"

definition id_string :: "config \<Rightarrow> board \<Rightarrow> string" where
  "id_string cfg bd =
     ''{id='' @ [CHR 0x22] @ deviceId cfg @ [CHR 0x22] @ '',mac='' @ [CHR 0x22]
       @ macAddress bd @ [CHR 0x22] @ ''} ''"

definition HandleRoot :: "config \<Rightarrow> board \<Rightarrow> sketch \<Rightarrow> http_response" where
  "HandleRoot cfg bd st = \<lparr>status = 200, content_type = ''text/plain'', body = GenerateMetrics cfg bd st\<rparr>"

text \<open>\<^verbatim>\<open>HandleNotFound\<close> echoes the request.\<close>

definition HandleNotFound :: "http_request \<Rightarrow> http_response" where
  "HandleNotFound rq =
     (let message = ''File Not Found\<newline>\<newline>'';
          message = message @ ''URI: '';
          message = message @ req_uri rq;
          message = message @ ''\<newline>Method: '';
          message = message @ (if req_method rq = HTTP_GET then ''GET'' else ''POST'');
          message = message @ ''\<newline>Arguments: '';
          message = message @ String_nat (length (req_args rq));
          message = message @ ''\<newline>'';
          message = foldl (\<lambda>message a. message @ '' '' @ fst a @ '': '' @ snd a @ ''\<newline>'')
                      message (req_args rq)
      in \<lparr>status = 404, content_type = ''text/html'', body = message\<rparr>)"

section \<open>The main loop\<close>

text \<open>
  The routes registered in \<^verbatim>\<open>setup\<close>:
  \<^verbatim>\<open>
  server.on("/", HTTP_GET, HandleRoot);
  server.on("/metrics", HTTP_GET, HandleRoot);
  server.on("/setscreen2", HTTP_POST, HandleDisplaySet);
  server.on("/uploadscreen", HTTP_POST, HandleDisplayUpload);
  server.onNotFound(HandleNotFound);
  \<close>
\<close>

definition handleClient :: "config \<Rightarrow> board \<Rightarrow> http_request \<Rightarrow> sketch \<Rightarrow> sketch \<times> http_response" where
  "handleClient cfg bd rq st =
     (if req_method rq = HTTP_GET \<and> (req_uri rq = ''/'' \<or> req_uri rq = ''/metrics'')
      then (st, HandleRoot cfg bd st)
      else if req_method rq = HTTP_POST \<and> req_uri rq = ''/setscreen2''
      then HandleDisplaySet (req_args rq) st
      else if req_method rq = HTTP_POST \<and> req_uri rq = ''/uploadscreen''
      then HandleDisplayUpload (req_args rq) st
      else (st, HandleNotFound rq))"

text \<open>
  The sensor drivers are outside the sketch. What the four update functions leave in the
  sensor variables in one pass of the loop is an input of the model.
\<close>

record readings =
  r_TVOC :: int
  r_NOX :: int
  r_Co2 :: int
  r_pm25 :: int
  r_tempf :: rat
  r_hum :: int

definition update_sensors :: "readings \<Rightarrow> sketch \<Rightarrow> sketch" where
  "update_sensors rd st =
     st\<lparr>TVOC := r_TVOC rd, NOX := r_NOX rd, Co2 := r_Co2 rd, pm25 := r_pm25 rd,
        tempf := r_tempf rd, hum := r_hum rd\<rparr>"

text \<open>
  One pass of \<^verbatim>\<open>loop\<close>: the clock is read, the sensors are refreshed, the display is
  updated and a pending request, if there is one, is served.
\<close>

definition loop ::
  "config \<Rightarrow> board \<Rightarrow> millis \<Rightarrow> readings \<Rightarrow> http_request option \<Rightarrow> sketch
     \<Rightarrow> (sketch \<times> screen list \<times> http_response option) option" where
  "loop cfg bd now rd rq st =
     (let st1 = st\<lparr>currentMillis := now\<rparr>;
          st2 = update_sensors rd st1
      in case updateOLED st2 of
           None \<Rightarrow> None
         | Some (st3, out) \<Rightarrow>
             (case rq of
                None \<Rightarrow> Some (st3, out, None)
              | Some r \<Rightarrow> (case handleClient cfg bd r st3 of (st4, resp) \<Rightarrow> Some (st4, out, Some resp))))"

text \<open>The states the sketch can be in: the start, and what a pass of the loop makes of one.\<close>

inductive reachable :: "sketch \<Rightarrow> bool" where
  reachable_boot: "reachable boot"
| reachable_loop: "reachable st \<Longrightarrow> loop cfg bd now rd rq st = Some (st', out, resp)
     \<Longrightarrow> reachable st'"

section \<open>Notions used in the statements\<close>

text \<open>
  The ranges the cursor, the phase and the slot array stay in; the first displayable slot
  after the cursor; whether the display interval has elapsed; and the state with the
  display timer advanced by one interval.
\<close>

definition cycle_inv :: "sketch \<Rightarrow> bool" where
  "cycle_inv st \<longleftrightarrow>
     length (dimg st) = MAX_DISPLAY_IMG \<and> 0 \<le> displayActive st
     \<and> displayActive st < int MAX_DISPLAY_IMG \<and> 0 \<le> displayCycle st \<and> displayCycle st < 4"

definition next_slot :: "sketch \<Rightarrow> int option" where
  "next_slot st = find (\<lambda>k. displayable st (dimg st ! nat k)) (cyclic_after (displayActive st))"

definition tick_fires :: "sketch \<Rightarrow> bool" where
  "tick_fires st \<longleftrightarrow> currentMillis st - previousOled st \<ge> oledInterval st"

definition ticked :: "sketch \<Rightarrow> sketch" where
  "ticked st = st\<lparr>previousOled := previousOled st + oledInterval st\<rparr>"

text \<open>
  Concrete states. \<open>late_summary\<close>: 4000 seconds into the run, slot 0 uploaded ten seconds
  ago and drawn by the last tick (phase 1), a summary posted one second ago.
  \<open>wrapped_clock\<close>: shortly before the millisecond clock wraps, in phase 0, no slot
  uploaded, a summary posted three seconds after the start. \<open>first_tick\<close>: the first
  tick after the start. \<open>three_slots\<close>: the slots 2, 7 and 15 uploaded.
\<close>

definition late_summary :: sketch where
  "late_summary = boot\<lparr>currentMillis := 4000000, display_last_set := 3999000,
     previousOled := 3995000, displayCycle := 1,
     dimg := (dimg boot)[0 := \<lparr>display = replicate DISPLAY_IMG_BYTE_LEN (CHR 0x00), active = True,
                                  last_updated = 3990000\<rparr>]\<rparr>"

definition wrapped_clock :: sketch where
  "wrapped_clock = boot\<lparr>currentMillis := 4294965100, display_last_set := 3000,
     previousOled := 4294960000\<rparr>"

definition first_tick :: sketch where
  "first_tick = boot\<lparr>currentMillis := 5000\<rparr>"

definition uploaded :: display_image where
  "uploaded = \<lparr>display = replicate DISPLAY_IMG_BYTE_LEN (CHR 0x00), active = True, last_updated = 0\<rparr>"

definition three_slots :: sketch where
  "three_slots = boot\<lparr>dimg := (dimg boot)[2 := uploaded, 7 := uploaded, 15 := uploaded]\<rparr>"

text \<open>The slot that the upload handler leaves at index \<open>i\<close>, and a batch of three fields.\<close>

definition upload_image :: "(string \<times> string) list \<Rightarrow> millis \<Rightarrow> nat \<Rightarrow> display_image \<Rightarrow> display_image" where
  "upload_image as now i im =
     (let argName = ''d'' @ String_int (int i)
      in if \<not> hasArg as argName then im
         else if server_arg as argName = [] then im\<lparr>active := False\<rparr>
         else if length (server_arg as argName) \<noteq> DISPLAY_IMG_BYTE_LEN then im\<lparr>active := False\<rparr>
         else im\<lparr>display := server_arg as argName, active := True, last_updated := now\<rparr>)"

definition upload_batch :: "(string \<times> string) list" where
  "upload_batch = [(''d3'', replicate 500 (CHR ''x'')), (''d5'', replicate 1024 (CHR ''a'')), (''d0'', [])]"

text \<open>A request that uploads the batch, and a pass of the sensors that reads zeros.\<close>

definition upload_request :: http_request where
  "upload_request = \<lparr>req_method = HTTP_POST, req_uri = ''/uploadscreen'', req_args = upload_batch\<rparr>"

definition no_readings :: readings where
  "no_readings = \<lparr>r_TVOC = 0, r_NOX = 0, r_Co2 = 0, r_pm25 = 0, r_tempf = 0, r_hum = 0\<rparr>"

section \<open>Floating-point rounding: exactness and error\<close>

lemma pow2_powi: "pow2 e = 2 powi e"
  by (simp add: pow2_def power_int_def power_one_over inverse_eq_divide)

lemma powi2_Suc: "(2::rat) powi (e + 1) = 2 * 2 powi e"
  by (simp add: power_int_add)

lemma ilog2_up_spec:
  "1 \<le> x \<Longrightarrow> 0 \<le> ilog2_up n x \<and> ilog2_up n x \<le> int n \<and> 2 powi (ilog2_up n x) \<le> x
     \<and> (x < 2 powi (ilog2_up n x + 1) \<or> ilog2_up n x = int n)"
proof (induction n arbitrary: x)
  case 0
  then show ?case by simp
next
  case (Suc n)
  show ?case
  proof (cases "2 \<le> x")
    case True
    define e where "e = ilog2_up n (x / 2)"
    from True have h: "1 \<le> x / 2" by simp
    from Suc.IH [OF h] have ih: "0 \<le> e" "e \<le> int n" "2 powi e \<le> x / 2"
      "x / 2 < 2 powi (e + 1) \<or> e = int n" by (simp_all add: e_def)
    have r: "ilog2_up (Suc n) x = e + 1" using True by (simp add: e_def)
    have "2 powi (e + 1) \<le> x" using ih(3) by (simp add: powi2_Suc)
    moreover have "x < 2 powi (e + 1 + 1) \<or> e + 1 = int (Suc n)"
    proof (cases "e = int n")
      case True
      then show ?thesis by simp
    next
      case False
      with ih(4) have "x < 2 * 2 powi (e + 1)" by simp
      then show ?thesis by (simp only: powi2_Suc [of "e + 1"] simp_thms)
    qed
    ultimately show ?thesis using ih(1,2) unfolding r by simp
  next
    case False
    with Suc.prems show ?thesis by simp
  qed
qed

lemma ilog2_down_spec:
  "0 < x \<Longrightarrow> x < 2 \<Longrightarrow> - int n \<le> ilog2_down n x \<and> ilog2_down n x \<le> 0
     \<and> x < 2 powi (ilog2_down n x + 1)
     \<and> (2 powi (ilog2_down n x) \<le> x \<or> ilog2_down n x = - int n)"
proof (induction n arbitrary: x)
  case 0
  then show ?case by simp
next
  case (Suc n)
  show ?case
  proof (cases "x < 1")
    case True
    define e where "e = ilog2_down n (2 * x)"
    from True Suc.prems have h: "0 < 2 * x" "2 * x < 2" by simp_all
    from Suc.IH [OF h] have ih: "- int n \<le> e" "e \<le> 0" "2 * x < 2 powi (e + 1)"
      "2 powi e \<le> 2 * x \<or> e = - int n" by (simp_all add: e_def)
    have r: "ilog2_down (Suc n) x = e - 1" using True by (simp add: e_def)
    have p: "(2::rat) powi e = 2 * 2 powi (e - 1)"
      using powi2_Suc [of "e - 1"] by simp
    have "x < 2 powi (e - 1 + 1)" using ih(3) by (simp add: powi2_Suc)
    moreover have "2 powi (e - 1) \<le> x \<or> e - 1 = - int (Suc n)"
      using ih(4) p by auto
    ultimately show ?thesis using ih(1,2) unfolding r by simp
  next
    case False
    with Suc.prems show ?thesis by simp
  qed
qed

lemma fexp_spec:
  assumes "0 < x" "0 < emax"
  shows "1 - int emax \<le> fexp emax x \<and> fexp emax x \<le> int emax
     \<and> (2 powi (fexp emax x) \<le> x \<or> fexp emax x = 1 - int emax)
     \<and> (x < 2 powi (fexp emax x + 1) \<or> fexp emax x = int emax)"
proof (cases "1 \<le> x")
  case True
  have "fexp emax x = ilog2_up emax x" using True by (simp add: fexp_def)
  with ilog2_up_spec [OF True, of emax] assms(2) show ?thesis
    by auto
next
  case False
  then have "x < 2" by simp
  from ilog2_down_spec [OF assms(1) this, of "emax - 1"] False assms(2) show ?thesis
    by (auto simp add: fexp_def)
qed

lemma half_even_of_int: "half_even (of_int m) = m"
  by (simp add: half_even_def)

lemma half_even_err: "\<bar>of_int (half_even y) - y\<bar> \<le> 1 / 2"
proof -
  have "of_int \<lfloor>y\<rfloor> \<le> y" "y < of_int \<lfloor>y\<rfloor> + 1" by linarith+
  then show ?thesis
    by (auto simp: half_even_def Let_def abs_le_iff)
qed

lemma fround_err:
  assumes "\<bar>x\<bar> < 2 powi (k + 1)" "1 - int emax \<le> k" "0 < emax"
  shows "\<bar>fround p emax x - x\<bar> \<le> 2 powi (k - int p)"
proof (cases "x = 0")
  case True
  then show ?thesis by (simp add: fround_def)
next
  case False
  define e where "e = fexp emax \<bar>x\<bar>"
  define q :: rat where "q = 2 powi (e - int p + 1)"
  from False have pos: "0 < \<bar>x\<bar>" by simp
  from fexp_spec [OF pos assms(3)]
  have lo: "2 powi e \<le> \<bar>x\<bar> \<or> e = 1 - int emax" by (simp add: e_def)
  have "e \<le> k"
  proof (cases "e = 1 - int emax")
    case True
    with assms(2) show ?thesis by simp
  next
    case False
    with lo have "(2::rat) powi e < 2 powi (k + 1)" using assms(1) by simp
    then have "e < k + 1"
      using power_int_increasing [of "k + 1" e "2::rat"] by (cases "e < k + 1") auto
    then show ?thesis by simp
  qed
  have qpos: "0 < q" by (simp add: q_def)
  have fr: "fround p emax x = of_int (half_even (x / q)) * q"
    using False by (simp add: fround_def Let_def q_def e_def pow2_powi)
  have "fround p emax x - x = (of_int (half_even (x / q)) - x / q) * q"
    using qpos by (simp add: fr field_simps)
  then have "\<bar>fround p emax x - x\<bar> = \<bar>of_int (half_even (x / q)) - x / q\<bar> * q"
    using qpos by (simp add: abs_mult)
  also have "\<dots> \<le> 1 / 2 * q"
    using half_even_err [of "x / q"] qpos by (simp add: mult_right_mono)
  also have "\<dots> = 2 powi (e - int p)"
    using powi2_Suc [of "e - int p"] by (simp add: q_def)
  also have "\<dots> \<le> 2 powi (k - int p)"
    using \<open>e \<le> k\<close> by (simp add: power_int_increasing)
  finally show ?thesis .
qed

lemma fround_exact:
  assumes x: "x = of_int m * 2 powi j" and m: "\<bar>m\<bar> < 2 ^ p"
    and j: "2 - int emax - int p \<le> j" and hi: "\<bar>x\<bar> < 2 powi (int emax + 1)"
    and emax: "0 < emax"
  shows "fround p emax x = x"
proof (cases "x = 0")
  case True
  then show ?thesis by (simp add: fround_def)
next
  case False
  define e where "e = fexp emax \<bar>x\<bar>"
  define q :: rat where "q = 2 powi (e - int p + 1)"
  from False have pos: "0 < \<bar>x\<bar>" by simp
  from fexp_spec [OF pos emax]
  have lo: "2 powi e \<le> \<bar>x\<bar> \<or> e = 1 - int emax" by (simp add: e_def)
  have je: "e - int p + 1 \<le> j"
  proof (cases "e = 1 - int emax")
    case True
    with j show ?thesis by simp
  next
    case False
    with lo have "2 powi e \<le> \<bar>x\<bar>" by simp
    also have "\<bar>x\<bar> = of_int \<bar>m\<bar> * 2 powi j" by (simp add: x abs_mult)
    also have "\<dots> < 2 ^ p * 2 powi j"
    proof -
      have "(of_int \<bar>m\<bar> :: rat) < of_int (2 ^ p)" using m by (simp only: of_int_less_iff)
      then show ?thesis by (simp add: mult_strict_right_mono)
    qed
    also have "\<dots> = 2 powi (int p + j)" by (simp add: power_int_add)
    finally have "(2::rat) powi e < 2 powi (int p + j)" .
    then have "e < int p + j"
      using power_int_increasing [of "int p + j" e "2::rat"] by (cases "e < int p + j") auto
    then show ?thesis by simp
  qed
  define d where "d = nat (j - (e - int p + 1))"
  have jd: "j = (e - int p + 1) + int d" using je by (simp add: d_def)
  have "(2::rat) powi j = 2 powi (e - int p + 1) * 2 powi (int d)"
    by (subst jd) (rule power_int_add, simp)
  then have pj: "(2::rat) powi j = q * 2 ^ d"
    by (simp add: q_def)
  have xq: "x = of_int (m * 2 ^ d) * q"
    unfolding x pj by simp
  have qpos: "q \<noteq> 0" by (simp add: q_def)
  have "fround p emax x = of_int (half_even (x / q)) * q"
    using False by (simp add: fround_def Let_def q_def e_def pow2_powi)
  also have "x / q = of_int (m * 2 ^ d)" using qpos by (subst xq) simp
  also have "of_int (half_even (of_int (m * 2 ^ d))) * q = x"
    by (simp only: half_even_of_int xq [symmetric])
  finally show ?thesis .
qed

lemma flt_dyadic:
  assumes "\<bar>m\<bar> < 2 ^ 24" "- 149 \<le> j" "j \<le> 100"
  shows "flt (of_int m * 2 powi j) = of_int m * 2 powi j"
proof -
  have "\<bar>of_int m * (2::rat) powi j\<bar> = of_int \<bar>m\<bar> * 2 powi j"
    by (simp add: abs_mult)
  also have "\<dots> \<le> of_int \<bar>m\<bar> * 2 powi 100"
    using assms(3) by (intro mult_left_mono power_int_increasing) simp_all
  also have "\<dots> < 2 ^ 24 * 2 powi 100"
  proof -
    have "(of_int \<bar>m\<bar> :: rat) < of_int (2 ^ 24)" using assms(1) by (simp only: of_int_less_iff)
    then show ?thesis by (intro mult_strict_right_mono) simp_all
  qed
  also have "\<dots> \<le> 2 powi (int 127 + 1)" by simp
  finally have hi: "\<bar>of_int m * (2::rat) powi j\<bar> < 2 powi (int 127 + 1)" .
  show ?thesis
    unfolding flt_def
    by (rule fround_exact [OF refl assms(1) _ hi]) (use assms(2) in simp_all)
qed

lemma flt_int: "\<bar>n\<bar> < 2 ^ 24 \<Longrightarrow> flt (of_int n) = of_int n"
  using flt_dyadic [of n 0] by simp

lemma flt_half: "\<bar>n\<bar> < 2 ^ 24 \<Longrightarrow> flt (of_int n / 2) = of_int n / 2"
  using flt_dyadic [of n "- 1"] by (simp add: power_int_minus field_simps)

lemma dbl_half:
  assumes "\<bar>n\<bar> < 2 ^ 24"
  shows "dbl (of_int n / 2) = of_int n / 2"
proof -
  have x: "(of_int n / 2 :: rat) = of_int n * 2 powi (- 1)"
    by (simp add: power_int_minus field_simps)
  have m: "\<bar>n\<bar> < 2 ^ 53" using assms by simp
  have "\<bar>of_int n / 2 :: rat\<bar> \<le> of_int \<bar>n\<bar>" by simp
  also have "(of_int \<bar>n\<bar> :: rat) < of_int (2 ^ 24)" using assms by (simp only: of_int_less_iff)
  also have "(of_int (2 ^ 24) :: rat) \<le> 2 powi (int 1023 + 1)"
    by (simp add: power_int_def)
  finally have hi: "\<bar>of_int n / 2 :: rat\<bar> < 2 powi (int 1023 + 1)" .
  show ?thesis
    unfolding dbl_def
    by (rule fround_exact [OF x m _ hi]) simp_all
qed

lemma dbl_12_1: "12 < dbl (121 / 10) \<and> dbl (121 / 10) < 13"
proof -
  have "\<bar>dbl (121 / 10) - 121 / 10\<bar> \<le> 2 powi (3 - int 53)"
    unfolding dbl_def by (rule fround_err) simp_all
  also have "\<dots> \<le> 1 / 100" by (simp add: power_int_minus field_simps)
  finally have "\<bar>dbl (121 / 10) - 121 / 10\<bar> \<le> 1 / 100" .
  then show ?thesis unfolding abs_le_iff by linarith
qed

lemma calcAQI_half:
  assumes slope: "c_round (flt (flt (of_int (Ih - Il)) / flt (BPh - BPl))) = s"
    and BPl: "BPl = of_int N / 2"
    and b: "0 \<le> Cp" "Cp \<le> 1000" "0 \<le> N" "N \<le> 1000" "0 \<le> s" "s \<le> 4" "0 \<le> Il" "Il \<le> 1000"
  shows "calcAQI Cp Ih Il BPh BPl = c_trunc (of_int (s * (2 * Cp - N) + 2 * Il) / 2)"
proof -
  have t: "\<bar>s * (2 * Cp - N)\<bar> \<le> 4 * 2000"
    unfolding abs_mult using b by (intro mult_mono) simp_all
  have 1: "flt (of_int Cp) = of_int Cp" using b by (intro flt_int) simp
  have 2: "flt (of_int Cp - of_int N / 2) = of_int (2 * Cp - N) / 2"
    using flt_half [of "2 * Cp - N"] b by (simp add: field_simps)
  have 3: "flt (of_int s) = of_int s" using b by (intro flt_int) simp
  have 4: "flt (of_int s * (of_int (2 * Cp - N) / 2)) = of_int (s * (2 * Cp - N)) / 2"
    using flt_half [of "s * (2 * Cp - N)"] t by simp
  have 5: "flt (of_int Il) = of_int Il" using b by (intro flt_int) simp
  have 6: "flt (of_int (s * (2 * Cp - N)) / 2 + of_int Il) = of_int (s * (2 * Cp - N) + 2 * Il) / 2"
    using flt_half [of "s * (2 * Cp - N) + 2 * Il"] t b by (simp add: field_simps)
  have "calcAQI Cp Ih Il BPh BPl
      = c_trunc (flt (flt (flt (of_int s) * flt (flt (of_int Cp) - BPl)) + flt (of_int Il)))"
    by (simp only: calcAQI_def Let_def slope)
  then show ?thesis
    by (simp only: BPl 1 2 3 4 5 6)
qed

lemma c_trunc_half: "0 \<le> K \<Longrightarrow> c_trunc (of_int K / 2) = K div 2"
proof -
  have "\<lfloor>(of_int K :: rat) / of_int 2\<rfloor> = K div 2" by (rule floor_divide_of_int_eq)
  then show "0 \<le> K \<Longrightarrow> c_trunc (of_int K / 2) = K div 2"
    by (simp add: c_trunc_def)
qed

lemma calcAQI_half_div:
  assumes "c_round (flt (flt (of_int (Ih - Il)) / flt (BPh - BPl))) = s"
    and "BPl = of_int N / 2"
    and "0 \<le> Cp" "Cp \<le> 1000" "0 \<le> N" "N \<le> 1000" "0 \<le> s" "s \<le> 4" "0 \<le> Il" "Il \<le> 1000"
    and "0 \<le> s * (2 * Cp - N) + 2 * Il"
  shows "calcAQI Cp Ih Il BPh BPl = (s * (2 * Cp - N) + 2 * Il) div 2"
  by (simp only: calcAQI_half [OF assms(1-10)] c_trunc_half [OF assms(11)])

lemma slope1: "c_round (flt (flt (of_int (50 - 0)) / flt (flt 12 - flt 0))) = 4"
  by code_simp
lemma slope2: "c_round (flt (flt (of_int (100 - 51)) / flt (flt (dbl (354 / 10)) - flt (dbl (121 / 10))))) = 2"
  by code_simp
lemma slope3: "c_round (flt (flt (of_int (150 - 101)) / flt (flt (dbl (554 / 10)) - flt (dbl (355 / 10))))) = 2"
  by code_simp
lemma slope4: "c_round (flt (flt (of_int (200 - 151)) / flt (flt (dbl (1504 / 10)) - flt (dbl (555 / 10))))) = 1"
  by code_simp
lemma slope5: "c_round (flt (flt (of_int (300 - 201)) / flt (flt (dbl (2504 / 10)) - flt (dbl (1505 / 10))))) = 1"
  by code_simp
lemma slope6: "c_round (flt (flt (of_int (400 - 301)) / flt (flt (dbl (3504 / 10)) - flt (dbl (2505 / 10))))) = 1"
  by code_simp
lemma slope7: "c_round (flt (flt (of_int (500 - 401)) / flt (flt (dbl (5004 / 10)) - flt (dbl (3505 / 10))))) = 1"
  by code_simp
lemma bp_12_1: "flt (dbl (121 / 10)) = 6343885 / 524288"
  by code_simp

lemma calcAQI_band2:
  assumes "13 \<le> Cp" "Cp \<le> 35"
  shows "calcAQI Cp 100 51 (flt (dbl (354 / 10))) (flt (dbl (121 / 10))) = 2 * Cp + 26"
proof -
  define m where "m = Cp * 524288 - 6343885"
  have mb: "0 < m" "m < 2 ^ 24" using assms by (simp_all add: m_def)
  have 1: "flt (of_int Cp) = of_int Cp" using assms by (intro flt_int) simp
  have c0: "of_int Cp - 6343885 / 524288 = (of_int m * 2 powi (- 19) :: rat)"
    by (simp add: m_def power_int_minus field_simps)
  have 2: "flt (of_int Cp - 6343885 / 524288) = of_int m * 2 powi (- 19)"
    unfolding c0 using mb by (intro flt_dyadic) simp_all
  have 3: "flt (of_int 2) = 2" using flt_int [of 2] by simp
  have c1: "2 * (of_int m * 2 powi (- 19)) = (of_int m * 2 powi (- 18) :: rat)"
    by (simp add: power_int_minus field_simps)
  have 4: "flt (2 * (of_int m * 2 powi (- 19))) = of_int m * 2 powi (- 18)"
    unfolding c1 using mb by (intro flt_dyadic) simp_all
  have 5: "flt (of_int 51) = 51" using flt_int [of 51] by simp
  define y :: rat where "y = of_int m * 2 powi (- 18) + 51"
  have yv: "y = 2 * of_int Cp + 51 - 6343885 / 262144"
    by (simp add: y_def m_def power_int_minus field_simps)
  have "\<bar>y\<bar> < 2 powi (6 + 1)" using assms by (simp add: yv abs_less_iff)
  then have "\<bar>fround 24 127 y - y\<bar> \<le> 2 powi (6 - int 24)"
    by (rule fround_err) simp_all
  also have "\<dots> \<le> 1 / 100" by (simp add: power_int_minus field_simps)
  finally have "\<bar>flt y - y\<bar> \<le> 1 / 100" by (simp add: flt_def)
  then have lo: "of_int (2 * Cp + 26) \<le> flt y" and hi: "flt y < of_int (2 * Cp + 26) + 1"
    unfolding abs_le_iff yv by simp_all
  have "0 \<le> flt y" using lo assms by simp
  moreover have "\<lfloor>flt y\<rfloor> = 2 * Cp + 26"
    using lo hi by (simp only: floor_unique)
  ultimately have r: "c_trunc (flt y) = 2 * Cp + 26" by (simp add: c_trunc_def)
  have "calcAQI Cp 100 51 (flt (dbl (354 / 10))) (flt (dbl (121 / 10)))
      = c_trunc (flt (flt (flt (of_int 2) * flt (flt (of_int Cp) - 6343885 / 524288)) + flt (of_int 51)))"
    by (simp only: calcAQI_def Let_def slope2) (simp only: bp_12_1)
  also have "\<dots> = c_trunc (flt y)"
    by (simp only: 1 2 3 4 5 y_def)
  finally show ?thesis using r by simp
qed

lemma dbl_thresholds: "dbl (3505 / 10) = 701 / 2" "dbl (2505 / 10) = 501 / 2" "dbl (1505 / 10) = 301 / 2"
  "dbl (555 / 10) = 111 / 2" "dbl (355 / 10) = 71 / 2"
  using dbl_half [of 701] dbl_half [of 501] dbl_half [of 301] dbl_half [of 111] dbl_half [of 71]
  by simp_all

lemma flt_breakpoints: "flt (dbl (3505 / 10)) = of_int 701 / 2" "flt (dbl (2505 / 10)) = of_int 501 / 2"
  "flt (dbl (1505 / 10)) = of_int 301 / 2" "flt (dbl (555 / 10)) = of_int 111 / 2"
  "flt (dbl (355 / 10)) = of_int 71 / 2" "flt 0 = of_int 0 / 2"
  unfolding dbl_thresholds
  using flt_half [of 701] flt_half [of 501] flt_half [of 301] flt_half [of 111] flt_half [of 71]
    flt_half [of 0]
  by simp_all

lemma threshold_compare:
  "of_int pm > dbl (3505 / 10) \<longleftrightarrow> pm > 350"
  "of_int pm > dbl (2505 / 10) \<longleftrightarrow> pm > 250"
  "of_int pm > dbl (1505 / 10) \<longleftrightarrow> pm > 150"
  "of_int pm > dbl (555 / 10) \<longleftrightarrow> pm > 55"
  "of_int pm > dbl (355 / 10) \<longleftrightarrow> pm > 35"
  "of_int pm > dbl (121 / 10) \<longleftrightarrow> pm > 12"
  unfolding dbl_thresholds using dbl_12_1 by linarith+

lemma PM_TO_AQI_US_bands:
  assumes "0 \<le> pm" "pm \<le> 1000"
  shows "PM_TO_AQI_US pm = aqi_closed pm"
proof -
  consider "pm > 350" | "250 < pm" "pm \<le> 350" | "150 < pm" "pm \<le> 250" | "55 < pm" "pm \<le> 150"
    | "35 < pm" "pm \<le> 55" | "12 < pm" "pm \<le> 35" | "pm \<le> 12" by linarith
  then show ?thesis
  proof cases
    case 1
    have "PM_TO_AQI_US pm = calcAQI pm 500 401 (flt (dbl (5004 / 10))) (flt (dbl (3505 / 10)))"
      unfolding PM_TO_AQI_US_def threshold_compare using assms 1 by simp
    also have "\<dots> = (1 * (2 * pm - 701) + 2 * 401) div 2"
      using assms 1 by (intro calcAQI_half_div [OF slope7 flt_breakpoints(1)]) simp_all
    also have "\<dots> = aqi_closed pm"
      using 1 unfolding aqi_closed_def by presburger
    finally show ?thesis .
  next
    case 2
    have "PM_TO_AQI_US pm = calcAQI pm 400 301 (flt (dbl (3504 / 10))) (flt (dbl (2505 / 10)))"
      unfolding PM_TO_AQI_US_def threshold_compare using assms 2 by simp
    also have "\<dots> = (1 * (2 * pm - 501) + 2 * 301) div 2"
      using assms 2 by (intro calcAQI_half_div [OF slope6 flt_breakpoints(2)]) simp_all
    also have "\<dots> = aqi_closed pm"
      using 2 unfolding aqi_closed_def by presburger
    finally show ?thesis .
  next
    case 3
    have "PM_TO_AQI_US pm = calcAQI pm 300 201 (flt (dbl (2504 / 10))) (flt (dbl (1505 / 10)))"
      unfolding PM_TO_AQI_US_def threshold_compare using assms 3 by simp
    also have "\<dots> = (1 * (2 * pm - 301) + 2 * 201) div 2"
      using assms 3 by (intro calcAQI_half_div [OF slope5 flt_breakpoints(3)]) simp_all
    also have "\<dots> = aqi_closed pm"
      using 3 unfolding aqi_closed_def by presburger
    finally show ?thesis .
  next
    case 4
    have "PM_TO_AQI_US pm = calcAQI pm 200 151 (flt (dbl (1504 / 10))) (flt (dbl (555 / 10)))"
      unfolding PM_TO_AQI_US_def threshold_compare using assms 4 by simp
    also have "\<dots> = (1 * (2 * pm - 111) + 2 * 151) div 2"
      using assms 4 by (intro calcAQI_half_div [OF slope4 flt_breakpoints(4)]) simp_all
    also have "\<dots> = aqi_closed pm"
      using 4 unfolding aqi_closed_def by presburger
    finally show ?thesis .
  next
    case 5
    have "PM_TO_AQI_US pm = calcAQI pm 150 101 (flt (dbl (554 / 10))) (flt (dbl (355 / 10)))"
      unfolding PM_TO_AQI_US_def threshold_compare using assms 5 by simp
    also have "\<dots> = (2 * (2 * pm - 71) + 2 * 101) div 2"
      using assms 5 by (intro calcAQI_half_div [OF slope3 flt_breakpoints(5)]) simp_all
    also have "\<dots> = aqi_closed pm"
      using 5 unfolding aqi_closed_def by presburger
    finally show ?thesis .
  next
    case 6
    have "PM_TO_AQI_US pm = calcAQI pm 100 51 (flt (dbl (354 / 10))) (flt (dbl (121 / 10)))"
      unfolding PM_TO_AQI_US_def threshold_compare using assms 6 by simp
    also have "\<dots> = 2 * pm + 26"
      using 6 by (intro calcAQI_band2) simp_all
    finally show ?thesis using 6 by (simp add: aqi_closed_def)
  next
    case 7
    have "PM_TO_AQI_US pm = calcAQI pm 50 0 (flt 12) (flt 0)"
      unfolding PM_TO_AQI_US_def threshold_compare using assms 7 by simp
    also have "\<dots> = (4 * (2 * pm - 0) + 2 * 0) div 2"
      using assms 7 by (intro calcAQI_half_div [OF slope1 flt_breakpoints(6)]) simp_all
    also have "\<dots> = aqi_closed pm"
      using 7 unfolding aqi_closed_def by presburger
    finally show ?thesis .
  qed
qed

lemma c_trunc_between: "of_int n \<le> x \<Longrightarrow> x < of_int n + 1 \<Longrightarrow> 0 \<le> n \<Longrightarrow> c_trunc x = n"
proof -
  assume a: "of_int n \<le> x" "x < of_int n + 1" "0 \<le> n"
  then have "\<lfloor>x\<rfloor> = n" by (simp only: floor_unique)
  moreover have "0 \<le> x" using a by linarith
  ultimately show ?thesis by (simp add: c_trunc_def)
qed

lemma ref_slopes:
  "c_round (of_int (500 - 401) / (5004 / 10 - 3505 / 10)) = 1"
  "c_round (of_int (400 - 301) / (3504 / 10 - 2505 / 10)) = 1"
  "c_round (of_int (300 - 201) / (2504 / 10 - 1505 / 10)) = 1"
  "c_round (of_int (200 - 151) / (1504 / 10 - 555 / 10)) = 1"
  "c_round (of_int (150 - 101) / (554 / 10 - 355 / 10)) = 2"
  "c_round (of_int (100 - 51) / (354 / 10 - 121 / 10)) = 2"
  "c_round (of_int (50 - 0) / (12 - 0)) = 4"
  by code_simp+

lemma pm_to_aqi_spec_bands:
  assumes "0 \<le> raw" "raw \<le> 1000"
  shows "pm_to_aqi_spec raw = aqi_closed raw"
proof -
  consider "raw > 350" | "250 < raw" "raw \<le> 350" | "150 < raw" "raw \<le> 250" | "55 < raw" "raw \<le> 150"
    | "35 < raw" "raw \<le> 55" | "12 < raw" "raw \<le> 35" | "raw \<le> 12" by linarith
  then show ?thesis
  proof cases
    case 1
    then have b: "aqi_band_spec (of_int raw) = (500, 401, 5004 / 10, 3505 / 10)"
      unfolding aqi_band_spec_def by simp
    have "c_trunc (of_int 1 * (of_int raw - 3505 / 10) + of_int 401) = raw + 50"
      using assms by (intro c_trunc_between) simp_all
    then show ?thesis using assms 1
      by (simp only: pm_to_aqi_spec_def b prod.case ref_slopes) (simp add: aqi_closed_def)
  next
    case 2
    then have b: "aqi_band_spec (of_int raw) = (400, 301, 3504 / 10, 2505 / 10)"
      unfolding aqi_band_spec_def by simp
    have "c_trunc (of_int 1 * (of_int raw - 2505 / 10) + of_int 301) = raw + 50"
      using assms by (intro c_trunc_between) simp_all
    then show ?thesis using assms 2
      by (simp only: pm_to_aqi_spec_def b prod.case ref_slopes) (simp add: aqi_closed_def)
  next
    case 3
    then have b: "aqi_band_spec (of_int raw) = (300, 201, 2504 / 10, 1505 / 10)"
      unfolding aqi_band_spec_def by simp
    have "c_trunc (of_int 1 * (of_int raw - 1505 / 10) + of_int 201) = raw + 50"
      using assms by (intro c_trunc_between) simp_all
    then show ?thesis using assms 3
      by (simp only: pm_to_aqi_spec_def b prod.case ref_slopes) (simp add: aqi_closed_def)
  next
    case 4
    then have b: "aqi_band_spec (of_int raw) = (200, 151, 1504 / 10, 555 / 10)"
      unfolding aqi_band_spec_def by simp
    have "c_trunc (of_int 1 * (of_int raw - 555 / 10) + of_int 151) = raw + 95"
      using assms by (intro c_trunc_between) simp_all
    then show ?thesis using assms 4
      by (simp only: pm_to_aqi_spec_def b prod.case ref_slopes) (simp add: aqi_closed_def)
  next
    case 5
    then have b: "aqi_band_spec (of_int raw) = (150, 101, 554 / 10, 355 / 10)"
      unfolding aqi_band_spec_def by simp
    have "c_trunc (of_int 2 * (of_int raw - 355 / 10) + of_int 101) = 2 * raw + 30"
      using assms by (intro c_trunc_between) simp_all
    then show ?thesis using assms 5
      by (simp only: pm_to_aqi_spec_def b prod.case ref_slopes) (simp add: aqi_closed_def)
  next
    case 6
    then have b: "aqi_band_spec (of_int raw) = (100, 51, 354 / 10, 121 / 10)"
      unfolding aqi_band_spec_def by simp
    have "c_trunc (of_int 2 * (of_int raw - 121 / 10) + of_int 51) = 2 * raw + 26"
      using assms by (intro c_trunc_between) simp_all
    then show ?thesis using assms 6
      by (simp only: pm_to_aqi_spec_def b prod.case ref_slopes) (simp add: aqi_closed_def)
  next
    case 7
    then have b: "aqi_band_spec (of_int raw) = (50, 0, 12, 0)"
      unfolding aqi_band_spec_def by simp
    have "c_trunc (of_int 4 * (of_int raw - 0) + of_int 0) = 4 * raw"
      using assms by (intro c_trunc_between) simp_all
    then show ?thesis using assms 7
      by (simp only: pm_to_aqi_spec_def b prod.case ref_slopes) (simp add: aqi_closed_def)
  qed
qed

section \<open>The display cycle: supporting lemmas\<close>

lemma smod_cursor: "0 \<le> c \<Longrightarrow> (c + 1) smod int MAX_DISPLAY_IMG = (c + 1) mod int MAX_DISPLAY_IMG"
  by (simp add: smod_int_alt_def MAX_DISPLAY_IMG_def sgn_if)

lemma smod4: "0 \<le> c \<Longrightarrow> (c + 1) smod 4 = (c + 1) mod (4::int)"
  by (simp add: smod_int_alt_def sgn_if)

lemma displayable_cursor [simp]: "displayable (st\<lparr>displayActive := c\<rparr>) im = displayable st im"
  by (simp add: displayable_def)

text \<open>The scan as a search along the cyclic order.\<close>

lemma cyclic_shift:
  "map (\<lambda>j. (c + 1 + int j) mod int MAX_DISPLAY_IMG) [0..<Suc n]
     = (c + 1) mod int MAX_DISPLAY_IMG
       # map (\<lambda>j. ((c + 1) mod int MAX_DISPLAY_IMG + 1 + int j) mod int MAX_DISPLAY_IMG) [0..<n]"
proof -
  have "[0..<Suc n] = 0 # map Suc [0..<n]"
    by (simp add: upt_conv_Cons map_Suc_upt del: upt_Suc)
  moreover have "(c + 1 + int (Suc j)) mod int MAX_DISPLAY_IMG
      = ((c + 1) mod int MAX_DISPLAY_IMG + 1 + int j) mod int MAX_DISPLAY_IMG" for j
  proof -
    have "((c + 1) mod int MAX_DISPLAY_IMG + (1 + int j)) mod int MAX_DISPLAY_IMG
        = (c + 1 + (1 + int j)) mod int MAX_DISPLAY_IMG"
      by (rule mod_add_left_eq)
    then show ?thesis by (simp add: algebra_simps)
  qed
  ultimately show ?thesis by (simp add: comp_def del: upt_Suc of_nat_Suc)
qed

lemma scan_displays_find:
  assumes "length (dimg st) = MAX_DISPLAY_IMG" "0 \<le> displayActive st"
    "displayActive st < int MAX_DISPLAY_IMG"
  shows "(\<forall>k. find (\<lambda>k. displayable st (dimg st ! nat k))
             (map (\<lambda>j. (displayActive st + 1 + int j) mod int MAX_DISPLAY_IMG) [0..<n]) = Some k
          \<longrightarrow> scan_displays n st = Some (st\<lparr>displayActive := k\<rparr>, [CustomScreen k], True))
       \<and> (find (\<lambda>k. displayable st (dimg st ! nat k))
             (map (\<lambda>j. (displayActive st + 1 + int j) mod int MAX_DISPLAY_IMG) [0..<n]) = None
          \<longrightarrow> scan_displays n st
              = Some (st\<lparr>displayActive := (displayActive st + int n) mod int MAX_DISPLAY_IMG\<rparr>, [], False))"
  using assms
proof (induction n arbitrary: st)
  case 0
  then show ?case by simp
next
  case (Suc n)
  define c1 where "c1 = (displayActive st + 1) mod int MAX_DISPLAY_IMG"
  have c1: "0 \<le> c1" "c1 < int MAX_DISPLAY_IMG" by (simp_all add: c1_def MAX_DISPLAY_IMG_def)
  have sl: "slot_at (dimg st) c1 = Some (dimg st ! nat c1)"
    using c1 Suc.prems by (simp add: slot_at_def)
  have step: "scan_displays (Suc n) st =
      (if displayable st (dimg st ! nat c1) then Some (st\<lparr>displayActive := c1\<rparr>, [CustomScreen c1], True)
       else scan_displays n (st\<lparr>displayActive := c1\<rparr>))"
    using Suc.prems(2) sl
    by (simp add: Let_def smod_cursor c1_def [symmetric] drawCustomScreen_def)
  note ih = Suc.IH [of "st\<lparr>displayActive := c1\<rparr>", simplified, OF Suc.prems(1) c1]
  have fin: "(c1 + int n) mod int MAX_DISPLAY_IMG = (displayActive st + int (Suc n)) mod int MAX_DISPLAY_IMG"
  proof -
    have "(c1 + int n) mod int MAX_DISPLAY_IMG = (displayActive st + 1 + int n) mod int MAX_DISPLAY_IMG"
      unfolding c1_def by (rule mod_add_left_eq)
    then show ?thesis by (simp add: algebra_simps)
  qed
  show ?case
    unfolding step cyclic_shift c1_def [symmetric]
    using ih fin by (auto simp del: upt_Suc of_nat_Suc)
qed

lemma cyclic_after_range: "k \<in> set (cyclic_after c) \<Longrightarrow> 0 \<le> k \<and> k < int MAX_DISPLAY_IMG"
  by (auto simp: cyclic_after_def MAX_DISPLAY_IMG_def)

lemma cursor_full_turn:
  "0 \<le> c \<Longrightarrow> c < int MAX_DISPLAY_IMG \<Longrightarrow> (c + int MAX_DISPLAY_IMG) mod int MAX_DISPLAY_IMG = c"
  by simp

lemma scan_displays_search:
  assumes "length (dimg st) = MAX_DISPLAY_IMG" "0 \<le> displayActive st"
    "displayActive st < int MAX_DISPLAY_IMG"
  shows "scan_displays MAX_DISPLAY_IMG st =
     (case find (\<lambda>k. displayable st (dimg st ! nat k)) (cyclic_after (displayActive st)) of
        Some k \<Rightarrow> Some (st\<lparr>displayActive := k\<rparr>, [CustomScreen k], True)
      | None \<Rightarrow> Some (st, [], False))"
  using scan_displays_find [OF assms, of MAX_DISPLAY_IMG] cursor_full_turn [OF assms(2,3)]
  by (simp add: cyclic_after_def split: option.split)

lemma cyclic_after_values:
  "cyclic_after 0 = [1, 2, 3, 4, 5, 6, 7, 8, 9, 10, 11, 12, 13, 14, 15, 16, 17, 18, 19, 0]"
  "cyclic_after 2 = [3, 4, 5, 6, 7, 8, 9, 10, 11, 12, 13, 14, 15, 16, 17, 18, 19, 0, 1, 2]"
  "cyclic_after 7 = [8, 9, 10, 11, 12, 13, 14, 15, 16, 17, 18, 19, 0, 1, 2, 3, 4, 5, 6, 7]"
  "cyclic_after 15 = [16, 17, 18, 19, 0, 1, 2, 3, 4, 5, 6, 7, 8, 9, 10, 11, 12, 13, 14, 15]"
  by (simp_all add: cyclic_after_def MAX_DISPLAY_IMG_def upt_rec)

lemma screen2_test_upd [simp]:
  "screen2_test (st\<lparr>displayCycle := p\<rparr>) = screen2_test st"
  "screen2_test (st\<lparr>displayActive := c\<rparr>) = screen2_test st"
  "screen2_test (st\<lparr>previousOled := t\<rparr>) = screen2_test st"
  by (simp_all add: screen2_test_def)

lemma displayable_upd [simp]:
  "displayable (st\<lparr>displayCycle := p\<rparr>) im = displayable st im"
  "displayable (st\<lparr>previousOled := t\<rparr>) im = displayable st im"
  by (simp_all add: displayable_def)

lemma next_slot_upd [simp]:
  "next_slot (st\<lparr>displayCycle := p\<rparr>) = next_slot st"
  "next_slot (st\<lparr>previousOled := t\<rparr>) = next_slot st"
  by (simp_all add: next_slot_def)

lemma next_slot_range: "next_slot st = Some k \<Longrightarrow> 0 \<le> k \<and> k < int MAX_DISPLAY_IMG"
  unfolding next_slot_def by (auto simp: find_Some_iff dest!: cyclic_after_range [OF nth_mem])

lemma oled_custom_scan:
  assumes "length (dimg st) = MAX_DISPLAY_IMG" "0 \<le> displayActive st"
    "displayActive st < int MAX_DISPLAY_IMG" "displayCycle st = 1 \<or> displayCycle st = 3"
  shows "oled_custom st =
     (case next_slot st of
        Some k \<Rightarrow> Some (st\<lparr>displayActive := k\<rparr>, [CustomScreen k])
      | None \<Rightarrow> Some (st\<lparr>displayCycle := (displayCycle st + 1) smod 4\<rparr>, []))"
  using assms(4)
  by (auto simp add: oled_custom_def scan_displays_search [OF assms(1-3)] next_slot_def
      split: option.split)

text \<open>What a fired tick does, by the phase it starts from.\<close>

lemma updateOLED_idle: "\<not> tick_fires st \<Longrightarrow> updateOLED st = Some (st, [])"
  by (simp add: updateOLED_def tick_fires_def)

lemma updateOLED_from_3:
  assumes "tick_fires st" "displayCycle st = 3"
  shows "updateOLED st = Some (ticked st\<lparr>displayCycle := 0\<rparr>, [Screen1])"
  using assms
  by (simp add: updateOLED_def tick_fires_def ticked_def Let_def oled_custom_def oled_screen2_def
      oled_screen1_def smod_int_alt_def)

lemma updateOLED_from_1:
  assumes "tick_fires st" "displayCycle st = 1"
  shows "updateOLED st =
     (if screen2_test st then Some (ticked st\<lparr>displayCycle := 2\<rparr>, [Screen2])
      else Some (ticked st\<lparr>displayCycle := 0\<rparr>, [Screen1]))"
  using assms
  by (simp add: updateOLED_def tick_fires_def ticked_def Let_def oled_custom_def oled_screen2_def
      oled_screen1_def smod_int_alt_def)

lemma updateOLED_from_0:
  assumes "tick_fires st" "displayCycle st = 0" "length (dimg st) = MAX_DISPLAY_IMG"
    "0 \<le> displayActive st" "displayActive st < int MAX_DISPLAY_IMG"
  shows "updateOLED st =
     (case next_slot st of
        Some k \<Rightarrow> Some (ticked st\<lparr>displayCycle := 1, displayActive := k\<rparr>, [CustomScreen k])
      | None \<Rightarrow>
          if screen2_test st then Some (ticked st\<lparr>displayCycle := 2\<rparr>, [Screen2])
          else Some (ticked st\<lparr>displayCycle := 0\<rparr>, [Screen1]))"
proof -
  define st2 where "st2 = ticked st\<lparr>displayCycle := 1\<rparr>"
  have st2: "length (dimg st2) = MAX_DISPLAY_IMG" "0 \<le> displayActive st2"
    "displayActive st2 < int MAX_DISPLAY_IMG" "displayCycle st2 = 1 \<or> displayCycle st2 = 3"
    "next_slot st2 = next_slot st" "displayCycle st2 = 1"
    using assms(3-5) by (simp_all add: st2_def ticked_def)
  have u: "updateOLED st =
     (case oled_custom st2 of None \<Rightarrow> None
      | Some (st3, out1) \<Rightarrow>
          (case oled_screen2 st3 of (st4, out2) \<Rightarrow>
             (case oled_screen1 st4 of (st5, out3) \<Rightarrow> Some (st5, out1 @ out2 @ out3))))"
    using assms(1,2)
    by (simp add: updateOLED_def tick_fires_def Let_def st2_def ticked_def smod_int_alt_def)
  show ?thesis
  proof (cases "next_slot st")
    case None
    then have "oled_custom st2 = Some (st2\<lparr>displayCycle := 2\<rparr>, [])"
      using oled_custom_scan [OF st2(1-4)] by (simp add: st2(5,6) smod_int_alt_def)
    then show ?thesis
      unfolding u using None
      by (simp add: st2_def ticked_def oled_screen2_def oled_screen1_def)
  next
    case (Some k)
    then have "oled_custom st2 = Some (st2\<lparr>displayActive := k\<rparr>, [CustomScreen k])"
      using oled_custom_scan [OF st2(1-4)] by (simp add: st2(5))
    then show ?thesis
      unfolding u using Some
      by (simp add: st2_def ticked_def oled_screen2_def oled_screen1_def)
  qed
qed

lemma updateOLED_from_2:
  assumes "tick_fires st" "displayCycle st = 2" "length (dimg st) = MAX_DISPLAY_IMG"
    "0 \<le> displayActive st" "displayActive st < int MAX_DISPLAY_IMG"
  shows "updateOLED st =
     (case next_slot st of
        Some k \<Rightarrow> Some (ticked st\<lparr>displayCycle := 3, displayActive := k\<rparr>, [CustomScreen k])
      | None \<Rightarrow> Some (ticked st\<lparr>displayCycle := 0\<rparr>, [Screen1]))"
proof -
  define st2 where "st2 = ticked st\<lparr>displayCycle := 3\<rparr>"
  have st2: "length (dimg st2) = MAX_DISPLAY_IMG" "0 \<le> displayActive st2"
    "displayActive st2 < int MAX_DISPLAY_IMG" "displayCycle st2 = 1 \<or> displayCycle st2 = 3"
    "next_slot st2 = next_slot st" "displayCycle st2 = 3"
    using assms(3-5) by (simp_all add: st2_def ticked_def)
  have u: "updateOLED st =
     (case oled_custom st2 of None \<Rightarrow> None
      | Some (st3, out1) \<Rightarrow>
          (case oled_screen2 st3 of (st4, out2) \<Rightarrow>
             (case oled_screen1 st4 of (st5, out3) \<Rightarrow> Some (st5, out1 @ out2 @ out3))))"
    using assms(1,2)
    by (simp add: updateOLED_def tick_fires_def Let_def st2_def ticked_def smod_int_alt_def)
  show ?thesis
  proof (cases "next_slot st")
    case None
    then have "oled_custom st2 = Some (st2\<lparr>displayCycle := 0\<rparr>, [])"
      using oled_custom_scan [OF st2(1-4)] by (simp add: st2(5,6) smod_int_alt_def)
    then show ?thesis
      unfolding u using None
      by (simp add: st2_def ticked_def oled_screen2_def oled_screen1_def)
  next
    case (Some k)
    then have "oled_custom st2 = Some (st2\<lparr>displayActive := k\<rparr>, [CustomScreen k])"
      using oled_custom_scan [OF st2(1-4)] by (simp add: st2(5))
    then show ?thesis
      unfolding u using Some
      by (simp add: st2_def ticked_def oled_screen2_def oled_screen1_def)
  qed
qed

lemma phase_cases: "0 \<le> p \<Longrightarrow> p < 4 \<Longrightarrow> p = 0 \<or> p = 1 \<or> p = 2 \<or> p = (3::int)"
  by arith

lemma updateOLED_one_screen:
  assumes "cycle_inv st" "tick_fires st"
  shows "\<exists>st' s. updateOLED st = Some (st', [s]) \<and> cycle_inv st'
     \<and> (\<forall>k. s = CustomScreen k \<longrightarrow> 0 \<le> k \<and> k < int MAX_DISPLAY_IMG)"
proof -
  from assms(1) have inv: "length (dimg st) = MAX_DISPLAY_IMG" "0 \<le> displayActive st"
    "displayActive st < int MAX_DISPLAY_IMG" and p: "0 \<le> displayCycle st" "displayCycle st < 4"
    by (simp_all add: cycle_inv_def)
  from phase_cases [OF p] consider "displayCycle st = 0" | "displayCycle st = 1"
    | "displayCycle st = 2" | "displayCycle st = 3" by blast
  then show ?thesis
  proof cases
    case 1
    show ?thesis
      using next_slot_range [of st] inv
      by (cases "next_slot st")
        (auto simp add: updateOLED_from_0 [OF assms(2) 1 inv] cycle_inv_def ticked_def)
  next
    case 2
    show ?thesis
      using inv by (simp add: updateOLED_from_1 [OF assms(2) 2] cycle_inv_def ticked_def)
  next
    case 3
    show ?thesis
      using next_slot_range [of st] inv
      by (cases "next_slot st")
        (auto simp add: updateOLED_from_2 [OF assms(2) 3 inv] cycle_inv_def ticked_def)
  next
    case 4
    show ?thesis
      using inv by (simp add: updateOLED_from_3 [OF assms(2) 4] cycle_inv_def ticked_def)
  qed
qed

lemma no_displayable_next_slot:
  assumes "length (dimg st) = MAX_DISPLAY_IMG" "filter (displayable st) (dimg st) = []"
  shows "next_slot st = None"
proof -
  have "\<not> displayable st (dimg st ! nat k)" if "k \<in> set (cyclic_after (displayActive st))" for k
  proof -
    from cyclic_after_range [OF that] assms(1) have "dimg st ! nat k \<in> set (dimg st)"
      by (intro nth_mem) linarith
    then show ?thesis using assms(2) by (simp add: filter_empty_conv)
  qed
  then show ?thesis by (simp add: next_slot_def find_None_iff)
qed

lemma first_tick_facts:
  "cycle_inv first_tick" "tick_fires first_tick" "(displayCycle first_tick + 1) smod 4 = 1"
  "filter (displayable first_tick) (dimg first_tick) = []" "\<not> screen2_test first_tick"
  "ticked first_tick = first_tick\<lparr>previousOled := 5000\<rparr>"
  unfolding first_tick_def
  by (simp_all add: boot_def cycle_inv_def tick_fires_def MAX_DISPLAY_IMG_def smod_int_alt_def
        screen2_test_def ticked_def displayable_def)

lemma three_slots_facts:
  "length (dimg three_slots) = MAX_DISPLAY_IMG" "0 \<le> displayActive three_slots"
  "displayActive three_slots < int MAX_DISPLAY_IMG"
  "[k \<leftarrow> [0..<MAX_DISPLAY_IMG]. displayable three_slots (dimg three_slots ! k)] = [2, 7, 15]"
  by (simp_all add: three_slots_def boot_def MAX_DISPLAY_IMG_def displayable_def uploaded_def
      customDisplayMaxAge_def upt_rec nth_list_update)

section \<open>The handlers and the loop: supporting lemmas\<close>

lemma upload_slot_eq:
  "upload_slot as (st, r) i =
     (st\<lparr>dimg := (dimg st)[i := upload_image as (currentMillis st) i (dimg st ! i)]\<rparr>,
      r @ upload_report as i)"
  by (simp add: upload_slot_def upload_image_def upload_report_def Let_def)

lemma upload_fold:
  "n \<le> length (dimg st) \<Longrightarrow>
   foldl (upload_slot as) (st, r) [0..<n] =
     (st\<lparr>dimg := map (\<lambda>k. if k < n then upload_image as (currentMillis st) k (dimg st ! k)
                            else dimg st ! k) [0..<length (dimg st)]\<rparr>,
      r @ concat (map (upload_report as) [0..<n]))"
proof (induction n)
  case 0
  then show ?case by (simp add: map_nth)
next
  case (Suc n)
  define dn where "dn = map (\<lambda>k. if k < n then upload_image as (currentMillis st) k (dimg st ! k)
                            else dimg st ! k) [0..<length (dimg st)]"
  have ih: "foldl (upload_slot as) (st, r) [0..<n]
      = (st\<lparr>dimg := dn\<rparr>, r @ concat (map (upload_report as) [0..<n]))"
    using Suc by (simp add: dn_def)
  have n: "n < length (dimg st)" using Suc.prems by simp
  have "dn[n := upload_image as (currentMillis st) n (dn ! n)]
      = map (\<lambda>k. if k < Suc n then upload_image as (currentMillis st) k (dimg st ! k)
                            else dimg st ! k) [0..<length (dimg st)]"
    using n by (intro nth_equalityI) (auto simp: dn_def nth_list_update less_Suc_eq)
  then show ?case
    by (simp add: ih upload_slot_eq)
qed

lemma HandleDisplayUpload_eq:
  assumes "length (dimg st) = MAX_DISPLAY_IMG"
  shows "HandleDisplayUpload as st =
     (st\<lparr>dimg := map (\<lambda>k. upload_image as (currentMillis st) k (dimg st ! k)) [0..<MAX_DISPLAY_IMG]\<rparr>,
      \<lparr>status = 200, content_type = ''text/html'',
       body = ''Screen Update Results:\<newline>'' @ concat (map (upload_report as) [0..<MAX_DISPLAY_IMG])\<rparr>)"
proof -
  have "map (\<lambda>k. if k < MAX_DISPLAY_IMG then upload_image as (currentMillis st) k (dimg st ! k)
                  else dimg st ! k) [0..<MAX_DISPLAY_IMG]
      = map (\<lambda>k. upload_image as (currentMillis st) k (dimg st ! k)) [0..<MAX_DISPLAY_IMG]"
    by (rule map_cong) simp_all
  then show ?thesis
    using upload_fold [of MAX_DISPLAY_IMG st as] assms
    by (simp add: HandleDisplayUpload_def)
qed

lemma String_int_digit:
  assumes "0 \<le> i" "i < 10"
  shows "String_int i = [digit_char (nat i)]"
proof -
  have "nat i < 10" using assms by linarith
  then have "String_nat (nat i) = [digit_char (nat i)]"
    by (subst String_nat.simps) simp
  then show ?thesis using assms by (simp add: String_int_def)
qed

lemma metrics_pm_eq:
  "metrics_pm cfg idS st m =
     m @ (if hasPM cfg \<and> 0 \<le> pm25 st
          then metric_block idS ''aqi'' ''Particulate Matter AQI value''
                 (String_int (PM_TO_AQI_US (pm25 st)))
               @ metric_block idS ''pm025'' ''Particulate Matter PM2.5 value'' (String_int (pm25 st))
          else [])"
  by (simp add: metrics_pm_def metric_block_def Let_def)

lemma metrics_nox_eq:
  "metrics_nox cfg idS st m =
     m @ (if hasSGP41 cfg \<and> 0 \<le> NOX st
          then metric_block idS ''nox'' ''Nitrogen Oxides (NOx) value'' (String_int (NOX st))
          else [])"
  by (simp add: metrics_nox_def metric_block_def Let_def)

lemma metrics_tvoc_eq:
  "metrics_tvoc cfg idS st m =
     m @ (if hasSGP41 cfg \<and> 0 \<le> TVOC st
          then metric_block idS ''tvoc'' ''Total volatile organic compounds (TVOC) value''
                 (String_int (TVOC st))
          else [])"
  by (simp add: metrics_tvoc_def metric_block_def Let_def)

lemma metrics_co2_eq:
  "metrics_co2 cfg idS st m =
     m @ (if hasCO2 cfg \<and> 0 \<le> Co2 st
          then metric_block idS ''rco2'' ''CO2 value, in ppm'' (String_int (Co2 st))
          else [])"
  by (simp add: metrics_co2_def metric_block_def Let_def)

lemma metrics_atmp_eq:
  "metrics_atmp cfg bd idS st m =
     m @ (if hasSHT cfg \<and> 0 \<le> tempf st
          then metric_block idS ''atmp'' ''Temperature, in degrees Fahrenheit''
                 (String_float bd (tempf st))
          else [])"
  by (simp add: metrics_atmp_def metric_block_def Let_def)

lemma metrics_rhum_eq:
  "metrics_rhum cfg idS st m =
     m @ (if hasSHT cfg \<and> 0 \<le> hum st
          then metric_block idS ''rhum'' ''Relative humidity, in percent'' (String_int (hum st))
          else [])"
  by (simp add: metrics_rhum_def metric_block_def Let_def)

lemma metrics_uptime_eq:
  "metrics_uptime idS st m =
     m @ metric_block idS ''uptimesec'' ''Seconds since boot''
           (String_nat (unat (currentMillis st div 1000)))"
  by (simp add: metrics_uptime_def metric_block_def Let_def)

lemma cycle_inv_sensors [simp]: "cycle_inv (update_sensors rd st) = cycle_inv st"
  by (simp add: cycle_inv_def update_sensors_def)

lemma cycle_inv_clock [simp]: "cycle_inv (st\<lparr>currentMillis := now\<rparr>) = cycle_inv st"
  by (simp add: cycle_inv_def)

lemma HandleDisplaySet_inv: "cycle_inv st \<Longrightarrow> cycle_inv (fst (HandleDisplaySet as st))"
  by (simp add: HandleDisplaySet_def Let_def cycle_inv_def)

lemma HandleDisplayUpload_inv: "cycle_inv st \<Longrightarrow> cycle_inv (fst (HandleDisplayUpload as st))"
proof -
  assume a: "cycle_inv st"
  then have l: "length (dimg st) = MAX_DISPLAY_IMG" by (simp add: cycle_inv_def)
  show ?thesis
    using a by (simp add: HandleDisplayUpload_eq [OF l] cycle_inv_def)
qed

lemma handleClient_inv: "cycle_inv st \<Longrightarrow> cycle_inv (fst (handleClient cfg bd rq st))"
  by (simp add: handleClient_def HandleDisplaySet_inv HandleDisplayUpload_inv)

lemma updateOLED_inv:
  assumes "cycle_inv st"
  shows "\<exists>st' out. updateOLED st = Some (st', out) \<and> cycle_inv st'
     \<and> (\<forall>k. CustomScreen k \<in> set out \<longrightarrow> 0 \<le> k \<and> k < int MAX_DISPLAY_IMG)"
proof (cases "tick_fires st")
  case True
  from updateOLED_one_screen [OF assms True] obtain st' s where
    "updateOLED st = Some (st', [s])" "cycle_inv st'"
    "\<forall>k. s = CustomScreen k \<longrightarrow> 0 \<le> k \<and> k < int MAX_DISPLAY_IMG" by blast
  then show ?thesis by auto
next
  case False
  then show ?thesis using assms by (simp add: updateOLED_idle)
qed

lemma loop_inv:
  assumes "cycle_inv st"
  shows "\<exists>st' out resp. loop cfg bd now rd rq st = Some (st', out, resp) \<and> cycle_inv st'
     \<and> (\<forall>k. CustomScreen k \<in> set out \<longrightarrow> 0 \<le> k \<and> k < int MAX_DISPLAY_IMG)"
proof -
  have "cycle_inv (update_sensors rd (st\<lparr>currentMillis := now\<rparr>))" using assms by simp
  from updateOLED_inv [OF this] obtain st3 out where
    u: "updateOLED (update_sensors rd (st\<lparr>currentMillis := now\<rparr>)) = Some (st3, out)"
    and i: "cycle_inv st3"
    and r: "\<forall>k. CustomScreen k \<in> set out \<longrightarrow> 0 \<le> k \<and> k < int MAX_DISPLAY_IMG" by blast
  show ?thesis
  proof (cases rq)
    case None
    then show ?thesis using u i r by (simp add: loop_def)
  next
    case (Some q)
    obtain st4 resp where h: "handleClient cfg bd q st3 = (st4, resp)" by (cases "handleClient cfg bd q st3")
    then have "cycle_inv st4" using handleClient_inv [OF i, of cfg bd q] by simp
    then show ?thesis using u r h Some by (simp add: loop_def)
  qed
qed

lemma boot_inv: "cycle_inv boot"
  by (simp add: cycle_inv_def boot_def MAX_DISPLAY_IMG_def)

lemma reachable_inv: "reachable st \<Longrightarrow> cycle_inv st"
proof (induction rule: reachable.induct)
  case reachable_boot
  show ?case by (rule boot_inv)
next
  case (reachable_loop st cfg bd now rd rq st' out resp)
  from loop_inv [OF reachable_loop.IH, of cfg bd now rd rq] reachable_loop.hyps(2)
  show ?case by auto
qed

section \<open>Results on the AQI conversion\<close>

text \<open>
  C2. The conversion is not monotone on \<open>0 \<dots> 1000\<close>: the slope of each band is rounded
  to an integer before it is multiplied, so the band \<open>55.5 \<dots> 150.5\<close> climbs with slope 1
  from 151 to 245 at a raw value of 150, while the next band starts again at 201 for a raw
  value of 151. The table in the source gives 151 to 200 as the index range of that band.
\<close>

theorem PM_TO_AQI_US_150_151:
  "PM_TO_AQI_US 150 = 245 \<and> PM_TO_AQI_US 151 = 201 \<and> \<not> PM_TO_AQI_US 150 \<le> PM_TO_AQI_US 151"
  using PM_TO_AQI_US_bands [of 150] PM_TO_AQI_US_bands [of 151] by (simp add: aqi_closed_def)

text \<open>
  C6. \<^verbatim>\<open>PM_TO_AQI_US\<close>, computed in binary floating point as the source does, equals the
  reference definition for every input: a negative value is returned unchanged, a value
  above 1000 gives 500, and otherwise the band is chosen by the strict comparisons and the
  result is the truncation of the rounded slope times the distance to the lower
  breakpoint plus the lower index.
\<close>

theorem PM_TO_AQI_US_refines_spec:
  "PM_TO_AQI_US raw = pm_to_aqi_spec raw \<and> PM_TO_AQI_US (- 1) = - 1 \<and> PM_TO_AQI_US 2000 = 500"
proof -
  have "PM_TO_AQI_US raw = pm_to_aqi_spec raw"
  proof -
    consider "raw < 0" | "raw > 1000" | "0 \<le> raw" "raw \<le> 1000" by linarith
    then show ?thesis
    proof cases
      case 1
      then show ?thesis by (simp add: PM_TO_AQI_US_def pm_to_aqi_spec_def)
    next
      case 2
      then show ?thesis by (simp add: PM_TO_AQI_US_def pm_to_aqi_spec_def)
    next
      case 3
      then show ?thesis by (simp only: PM_TO_AQI_US_bands pm_to_aqi_spec_bands)
    qed
  qed
  then show ?thesis by (simp add: PM_TO_AQI_US_def)
qed

section \<open>Results on the display cycle\<close>

text \<open>
  C5. With the cursor in range, the scan returns the first displayable slot in increasing
  cyclic order after the cursor and leaves the cursor there; when no slot is displayable it
  draws nothing and the cursor is back where it was. With no active slot the state is
  unchanged, and when exactly the slots 2, 7 and 15 are displayable, successive scans from
  cursor 0 stop at 2, 7, 15 and 2 again.
\<close>

theorem scan_displays_cyclic:
  assumes "length (dimg st) = MAX_DISPLAY_IMG" "0 \<le> displayActive st"
    "displayActive st < int MAX_DISPLAY_IMG"
  shows "scan_displays MAX_DISPLAY_IMG st =
       (case find (\<lambda>k. displayable st (dimg st ! nat k)) (cyclic_after (displayActive st)) of
          Some k \<Rightarrow> Some (st\<lparr>displayActive := k\<rparr>, [CustomScreen k], True)
        | None \<Rightarrow> Some (st, [], False))
     \<and> (filter active (dimg st) = [] \<longrightarrow> scan_displays MAX_DISPLAY_IMG st = Some (st, [], False))
     \<and> ([k \<leftarrow> [0..<MAX_DISPLAY_IMG]. displayable st (dimg st ! k)] = [2, 7, 15] \<longrightarrow>
          scan_displays MAX_DISPLAY_IMG (st\<lparr>displayActive := 0\<rparr>)
            = Some (st\<lparr>displayActive := 2\<rparr>, [CustomScreen 2], True)
        \<and> scan_displays MAX_DISPLAY_IMG (st\<lparr>displayActive := 2\<rparr>)
            = Some (st\<lparr>displayActive := 7\<rparr>, [CustomScreen 7], True)
        \<and> scan_displays MAX_DISPLAY_IMG (st\<lparr>displayActive := 7\<rparr>)
            = Some (st\<lparr>displayActive := 15\<rparr>, [CustomScreen 15], True)
        \<and> scan_displays MAX_DISPLAY_IMG (st\<lparr>displayActive := 15\<rparr>)
            = Some (st\<lparr>displayActive := 2\<rparr>, [CustomScreen 2], True))"
proof (intro conjI impI)
  show "scan_displays MAX_DISPLAY_IMG st =
       (case find (\<lambda>k. displayable st (dimg st ! nat k)) (cyclic_after (displayActive st)) of
          Some k \<Rightarrow> Some (st\<lparr>displayActive := k\<rparr>, [CustomScreen k], True)
        | None \<Rightarrow> Some (st, [], False))"
    by (rule scan_displays_search [OF assms])
next
  assume "filter active (dimg st) = []"
  then have na: "\<not> active im" if "im \<in> set (dimg st)" for im
    using that by (simp add: filter_empty_conv)
  have "find (\<lambda>k. displayable st (dimg st ! nat k)) (cyclic_after (displayActive st)) = None"
  proof -
    have "\<not> displayable st (dimg st ! nat k)" if "k \<in> set (cyclic_after (displayActive st))" for k
    proof -
      from cyclic_after_range [OF that] assms(1) have "dimg st ! nat k \<in> set (dimg st)"
        by (intro nth_mem) linarith
      then show ?thesis using na by (simp add: displayable_def)
    qed
    then show ?thesis by (simp add: find_None_iff)
  qed
  then show "scan_displays MAX_DISPLAY_IMG st = Some (st, [], False)"
    by (simp add: scan_displays_search [OF assms])
next
  assume f: "[k \<leftarrow> [0..<MAX_DISPLAY_IMG]. displayable st (dimg st ! k)] = [2, 7, 15]"
  have P: "displayable st (dimg st ! k) \<longleftrightarrow> k = 2 \<or> k = 7 \<or> k = 15" if "k < 20" for k :: nat
  proof -
    have "k \<in> set [k \<leftarrow> [0..<MAX_DISPLAY_IMG]. displayable st (dimg st ! k)]
        \<longleftrightarrow> displayable st (dimg st ! k)"
      using that by (auto simp add: MAX_DISPLAY_IMG_def)
    then show ?thesis unfolding f using that by auto
  qed
  have s: "scan_displays MAX_DISPLAY_IMG (st\<lparr>displayActive := c\<rparr>) =
       (case find (\<lambda>k. displayable st (dimg st ! nat k)) (cyclic_after c) of
          Some k \<Rightarrow> Some (st\<lparr>displayActive := k\<rparr>, [CustomScreen k], True)
        | None \<Rightarrow> Some (st\<lparr>displayActive := c\<rparr>, [], False))"
    if "0 \<le> c" "c < 20" for c
    using scan_displays_search [of "st\<lparr>displayActive := c\<rparr>"] assms(1) that
    by (simp add: MAX_DISPLAY_IMG_def split: option.split)
  show "scan_displays MAX_DISPLAY_IMG (st\<lparr>displayActive := 0\<rparr>)
            = Some (st\<lparr>displayActive := 2\<rparr>, [CustomScreen 2], True)"
    by (simp add: s cyclic_after_values P)
  show "scan_displays MAX_DISPLAY_IMG (st\<lparr>displayActive := 2\<rparr>)
            = Some (st\<lparr>displayActive := 7\<rparr>, [CustomScreen 7], True)"
    by (simp add: s cyclic_after_values P)
  show "scan_displays MAX_DISPLAY_IMG (st\<lparr>displayActive := 7\<rparr>)
            = Some (st\<lparr>displayActive := 15\<rparr>, [CustomScreen 15], True)"
    by (simp add: s cyclic_after_values P)
  show "scan_displays MAX_DISPLAY_IMG (st\<lparr>displayActive := 15\<rparr>)
            = Some (st\<lparr>displayActive := 2\<rparr>, [CustomScreen 2], True)"
    by (simp add: s cyclic_after_values P)
qed

theorem scan_displays_cyclic_witness:
  "length (dimg three_slots) = MAX_DISPLAY_IMG \<and> 0 \<le> displayActive three_slots
     \<and> displayActive three_slots < int MAX_DISPLAY_IMG
     \<and> [k \<leftarrow> [0..<MAX_DISPLAY_IMG]. displayable three_slots (dimg three_slots ! k)] = [2, 7, 15]
     \<and> scan_displays MAX_DISPLAY_IMG (three_slots\<lparr>displayActive := 0\<rparr>)
            = Some (three_slots\<lparr>displayActive := 2\<rparr>, [CustomScreen 2], True)
     \<and> scan_displays MAX_DISPLAY_IMG (three_slots\<lparr>displayActive := 2\<rparr>)
            = Some (three_slots\<lparr>displayActive := 7\<rparr>, [CustomScreen 7], True)
     \<and> scan_displays MAX_DISPLAY_IMG (three_slots\<lparr>displayActive := 7\<rparr>)
            = Some (three_slots\<lparr>displayActive := 15\<rparr>, [CustomScreen 15], True)
     \<and> scan_displays MAX_DISPLAY_IMG (three_slots\<lparr>displayActive := 15\<rparr>)
            = Some (three_slots\<lparr>displayActive := 2\<rparr>, [CustomScreen 2], True)"
  using scan_displays_cyclic [OF three_slots_facts(1-3)] three_slots_facts
  by simp

text \<open>
  C1. On a fired tick whose new phase is 2, the remote summary should be drawn exactly when
  one was posted and less than \<open>customDisplayMaxAge\<close> has passed since. The source
  compares \<^verbatim>\<open>currentMillis - -display_last_set\<close>, which is the sum of the clock and the
  time stamp, not their difference. At 4000000 ms, in phase 1 and with a summary posted
  one second before, the tick fires, the new phase is 2 and the summary is fresh, yet the
  tick falls back to phase 0 and draws the built-in summary. The scan of the slots in
  the same function subtracts the time stamp, as the specification does.
\<close>

theorem updateOLED_late_summary:
  "tick_fires late_summary \<and> (displayCycle late_summary + 1) smod 4 = 2
     \<and> is_fresh_spec late_summary
     \<and> updateOLED late_summary
         = Some (late_summary\<lparr>previousOled := 4000000, displayCycle := 0\<rparr>, [Screen1])"
proof -
  have f: "tick_fires late_summary" "displayCycle late_summary = 1"
    by (simp_all add: late_summary_def tick_fires_def boot_def)
  have "\<not> screen2_test late_summary"
    by (simp add: late_summary_def screen2_test_def boot_def customDisplayMaxAge_def)
  then have "updateOLED late_summary = Some (ticked late_summary\<lparr>displayCycle := 0\<rparr>, [Screen1])"
    by (simp add: updateOLED_from_1 [OF f])
  moreover have "ticked late_summary = late_summary\<lparr>previousOled := 4000000\<rparr>"
    by (simp add: ticked_def late_summary_def boot_def)
  moreover have "is_fresh_spec late_summary"
    by (simp add: late_summary_def is_fresh_spec_def boot_def customDisplayMaxAge_def)
  ultimately show ?thesis using f by (simp add: smod_int_alt_def)
qed

text \<open>
  C3, as amended. On a fired tick whose new phase is 1 or 3, with no displayable slot, the
  phase advances one more step in the same tick and the block of the phase reached runs
  in that same tick: from 3 the tick ends in phase 0 with the built-in summary drawn; from
  1 the phase becomes 2, and the tick ends there with the remote summary drawn when the
  test of the remote summary passes, and otherwise falls back once more to phase 0 with
  the built-in summary drawn.
\<close>

theorem updateOLED_no_slot_fallback:
  assumes "cycle_inv st" "tick_fires st"
    and "(displayCycle st + 1) smod 4 = 1 \<or> (displayCycle st + 1) smod 4 = 3"
    and "filter (displayable st) (dimg st) = []"
  shows "updateOLED st =
     Some (ticked st\<lparr>displayCycle :=
               (if (displayCycle st + 1) smod 4 = 1 \<and> screen2_test st then 2 else 0)\<rparr>,
           [if (displayCycle st + 1) smod 4 = 1 \<and> screen2_test st then Screen2 else Screen1])"
proof -
  from assms(1) have inv: "length (dimg st) = MAX_DISPLAY_IMG" "0 \<le> displayActive st"
    "displayActive st < int MAX_DISPLAY_IMG" and p: "0 \<le> displayCycle st" "displayCycle st < 4"
    by (simp_all add: cycle_inv_def)
  have n: "next_slot st = None" by (rule no_displayable_next_slot [OF inv(1) assms(4)])
  from phase_cases [OF p] assms(3) consider "displayCycle st = 0" | "displayCycle st = 2"
    by (auto simp: smod_int_alt_def)
  then show ?thesis
  proof cases
    case 1
    then show ?thesis
      by (simp add: updateOLED_from_0 [OF assms(2) 1 inv] n smod_int_alt_def)
  next
    case 2
    then show ?thesis
      by (simp add: updateOLED_from_2 [OF assms(2) 2 inv] n smod_int_alt_def)
  qed
qed

theorem updateOLED_no_slot_fallback_witness:
  "cycle_inv first_tick \<and> tick_fires first_tick \<and> (displayCycle first_tick + 1) smod 4 = 1
     \<and> filter (displayable first_tick) (dimg first_tick) = []
     \<and> updateOLED first_tick = Some (first_tick\<lparr>previousOled := 5000, displayCycle := 0\<rparr>, [Screen1])"
  using updateOLED_no_slot_fallback [of first_tick] first_tick_facts
  by simp

text \<open>
  C3 as stated fails: on the first tick after the start the new phase is 1, no slot is
  displayable and no summary was posted, and the tick ends in phase 0, two steps on, not
  in phase 2.
\<close>

theorem updateOLED_two_hops:
  "tick_fires first_tick \<and> (displayCycle first_tick + 1) smod 4 = 1
     \<and> filter (displayable first_tick) (dimg first_tick) = []
     \<and> updateOLED first_tick = Some (first_tick\<lparr>previousOled := 5000, displayCycle := 0\<rparr>, [Screen1])
     \<and> displayCycle (first_tick\<lparr>previousOled := 5000, displayCycle := 0\<rparr>)
         \<noteq> ((displayCycle first_tick + 1) smod 4 + 1) smod 4"
proof -
  have 1: "displayCycle first_tick = 0" by (simp add: first_tick_def boot_def)
  have inv: "length (dimg first_tick) = MAX_DISPLAY_IMG" "0 \<le> displayActive first_tick"
    "displayActive first_tick < int MAX_DISPLAY_IMG"
    using first_tick_facts(1) by (simp_all add: cycle_inv_def)
  have n: "next_slot first_tick = None"
    by (rule no_displayable_next_slot [OF inv(1) first_tick_facts(4)])
  have "updateOLED first_tick = Some (ticked first_tick\<lparr>displayCycle := 0\<rparr>, [Screen1])"
    by (simp add: updateOLED_from_0 [OF first_tick_facts(2) 1 inv] n first_tick_facts(5))
  then show ?thesis
    using first_tick_facts by (simp add: 1 smod_int_alt_def)
qed

text \<open>
  C7. Every fired tick draws exactly one screen (\<open>updateOLED_one_screen\<close> above). With no
  active slot and no fresh remote summary every tick should end in phase 0 with the
  built-in summary; because the test of the remote summary adds the time stamp to the
  clock, a summary posted three seconds after the start passes the test again when the
  sum wraps around \<open>2^32\<close>, 49 days later, and the remote summary is drawn although it is
  not fresh.
\<close>

theorem updateOLED_wrapped_clock:
  "tick_fires wrapped_clock \<and> filter active (dimg wrapped_clock) = []
     \<and> \<not> is_fresh_spec wrapped_clock
     \<and> updateOLED wrapped_clock
         = Some (wrapped_clock\<lparr>previousOled := 4294965000, displayCycle := 2\<rparr>, [Screen2])"
proof -
  have f: "tick_fires wrapped_clock" "displayCycle wrapped_clock = 0"
    by (simp_all add: wrapped_clock_def tick_fires_def boot_def)
  have inv: "length (dimg wrapped_clock) = MAX_DISPLAY_IMG" "0 \<le> displayActive wrapped_clock"
    "displayActive wrapped_clock < int MAX_DISPLAY_IMG"
    by (simp_all add: wrapped_clock_def boot_def MAX_DISPLAY_IMG_def)
  have na: "filter active (dimg wrapped_clock) = []"
    by (simp add: wrapped_clock_def boot_def)
  have "filter (displayable wrapped_clock) (dimg wrapped_clock) = []"
    by (simp add: wrapped_clock_def boot_def displayable_def)
  then have n: "next_slot wrapped_clock = None"
    by (rule no_displayable_next_slot [OF inv(1)])
  have "screen2_test wrapped_clock"
    by (simp add: wrapped_clock_def screen2_test_def boot_def customDisplayMaxAge_def)
  then have "updateOLED wrapped_clock = Some (ticked wrapped_clock\<lparr>displayCycle := 2\<rparr>, [Screen2])"
    by (simp add: updateOLED_from_0 [OF f inv] n)
  moreover have "ticked wrapped_clock = wrapped_clock\<lparr>previousOled := 4294965000\<rparr>"
    by (simp add: ticked_def wrapped_clock_def boot_def)
  moreover have "\<not> is_fresh_spec wrapped_clock"
    by (simp add: wrapped_clock_def is_fresh_spec_def boot_def customDisplayMaxAge_def)
  ultimately show ?thesis using f na by simp
qed

text \<open>
  C10. In every state the sketch can reach through passes of the loop (with any clock
  values, sensor readings and requests), the cursor \<open>displayActive\<close> lies in \<open>0 \<dots> 19\<close>
  and the slot array has its 20 elements; the next pass of the loop, whatever its inputs,
  reads no slot outside the array (it has a result), and every index given to
  \<^verbatim>\<open>drawCustomScreen\<close> is within bounds.
\<close>

theorem displayActive_in_bounds:
  assumes "reachable st"
  shows "0 \<le> displayActive st \<and> displayActive st < int MAX_DISPLAY_IMG
     \<and> length (dimg st) = MAX_DISPLAY_IMG
     \<and> (\<forall>cfg bd now rd rq. \<exists>st' out resp.
           loop cfg bd now rd rq st = Some (st', out, resp)
           \<and> (\<forall>k. CustomScreen k \<in> set out \<longrightarrow> 0 \<le> k \<and> k < int MAX_DISPLAY_IMG))"
proof -
  have i: "cycle_inv st" by (rule reachable_inv [OF assms])
  have "\<exists>st' out resp. loop cfg bd now rd rq st = Some (st', out, resp)
           \<and> (\<forall>k. CustomScreen k \<in> set out \<longrightarrow> 0 \<le> k \<and> k < int MAX_DISPLAY_IMG)"
    for cfg bd now rd rq
    using loop_inv [OF i, of cfg bd now rd rq] by blast
  then show ?thesis using i by (simp add: cycle_inv_def)
qed

theorem displayActive_in_bounds_witness:
  "reachable boot \<and> 0 \<le> displayActive boot \<and> displayActive boot < int MAX_DISPLAY_IMG
     \<and> length (dimg boot) = MAX_DISPLAY_IMG
     \<and> (\<exists>st' out resp. loop shipped_config \<lparr>macAddress = [], String_float = (\<lambda>x. [])\<rparr> 5000
           no_readings (Some upload_request) boot = Some (st', out, resp) \<and> reachable st'
           \<and> 0 \<le> displayActive st' \<and> displayActive st' < int MAX_DISPLAY_IMG)"
proof -
  from displayActive_in_bounds [OF reachable_boot] obtain st' out resp where
    l: "loop shipped_config \<lparr>macAddress = [], String_float = (\<lambda>x. [])\<rparr> 5000
           no_readings (Some upload_request) boot = Some (st', out, resp)"
    by blast
  have r: "reachable st'" by (rule reachable_loop [OF reachable_boot l])
  have "0 \<le> displayActive st' \<and> displayActive st' < int MAX_DISPLAY_IMG"
    using displayActive_in_bounds [OF r] by blast
  moreover have "0 \<le> displayActive boot \<and> displayActive boot < int MAX_DISPLAY_IMG
      \<and> length (dimg boot) = MAX_DISPLAY_IMG"
    using displayActive_in_bounds [OF reachable_boot] by blast
  ultimately show ?thesis using l r reachable_boot by blast
qed

section \<open>Results on the HTTP handlers\<close>

text \<open>
  C4. For every slot index \<open>i\<close> below 20, whatever the other fields of the request are:
  without a field \<open>d<i>\<close> the slot is untouched and nothing is reported; an empty payload
  clears \<open>active\<close>, leaves the stored bytes and the time stamp as they were and reports
  success; a payload of any other length than 1024 clears \<open>active\<close>, copies nothing and
  reports the invalid length; a payload of 1024 bytes becomes the slot's bitmap, with
  \<open>active\<close> set and \<open>last_updated\<close> the clock of this pass, and success is reported.
  Nothing but the slots changes, and the response is the header followed by the report
  lines of the slots in index order, with status 200.
\<close>

theorem HandleDisplayUpload_slots:
  assumes "length (dimg st) = MAX_DISPLAY_IMG" "i < MAX_DISPLAY_IMG"
  shows "(\<not> hasArg as (''d'' @ String_int (int i)) \<longrightarrow>
            dimg (fst (HandleDisplayUpload as st)) ! i = dimg st ! i
            \<and> upload_report as i = [])
     \<and> (hasArg as (''d'' @ String_int (int i)) \<and> server_arg as (''d'' @ String_int (int i)) = [] \<longrightarrow>
            dimg (fst (HandleDisplayUpload as st)) ! i = (dimg st ! i)\<lparr>active := False\<rparr>
            \<and> upload_report as i = ''SUCCESS: d'' @ String_int (int i) @ '' emptied.\<newline>'')
     \<and> (hasArg as (''d'' @ String_int (int i)) \<and> server_arg as (''d'' @ String_int (int i)) \<noteq> []
          \<and> length (server_arg as (''d'' @ String_int (int i))) \<noteq> DISPLAY_IMG_BYTE_LEN \<longrightarrow>
            dimg (fst (HandleDisplayUpload as st)) ! i = (dimg st ! i)\<lparr>active := False\<rparr>
            \<and> upload_report as i = ''ERROR: d'' @ String_int (int i) @ '' invalid length.\<newline>'')
     \<and> (hasArg as (''d'' @ String_int (int i))
          \<and> length (server_arg as (''d'' @ String_int (int i))) = DISPLAY_IMG_BYTE_LEN \<longrightarrow>
            dimg (fst (HandleDisplayUpload as st)) ! i
              = \<lparr>display = server_arg as (''d'' @ String_int (int i)), active = True,
                 last_updated = currentMillis st\<rparr>
            \<and> upload_report as i = ''SUCCESS: d'' @ String_int (int i) @ '' updated.\<newline>'')
     \<and> fst (HandleDisplayUpload as st) = st\<lparr>dimg := dimg (fst (HandleDisplayUpload as st))\<rparr>
     \<and> length (dimg (fst (HandleDisplayUpload as st))) = MAX_DISPLAY_IMG
     \<and> snd (HandleDisplayUpload as st)
         = \<lparr>status = 200, content_type = ''text/html'',
            body = ''Screen Update Results:\<newline>''
                     @ concat (map (upload_report as) [0..<MAX_DISPLAY_IMG])\<rparr>"
proof -
  have slot: "dimg (fst (HandleDisplayUpload as st)) ! i
      = upload_image as (currentMillis st) i (dimg st ! i)"
    using assms(2) by (simp add: HandleDisplayUpload_eq [OF assms(1)])
  have len: "DISPLAY_IMG_BYTE_LEN \<noteq> 0" by (simp add: DISPLAY_IMG_BYTE_LEN_def)
  show ?thesis
    unfolding slot
    using len
    by (auto simp add: HandleDisplayUpload_eq [OF assms(1)] upload_image_def upload_report_def Let_def)
qed

theorem HandleDisplayUpload_slots_witness:
  "length (dimg boot) = MAX_DISPLAY_IMG \<and> (5::nat) < MAX_DISPLAY_IMG \<and> (3::nat) < MAX_DISPLAY_IMG
     \<and> hasArg upload_batch (''d'' @ String_int (int 5))
     \<and> length (server_arg upload_batch (''d'' @ String_int (int 5))) = DISPLAY_IMG_BYTE_LEN
     \<and> dimg (fst (HandleDisplayUpload upload_batch boot)) ! 5
         = \<lparr>display = replicate 1024 (CHR ''a''), active = True, last_updated = currentMillis boot\<rparr>
     \<and> hasArg upload_batch (''d'' @ String_int (int 3))
     \<and> length (server_arg upload_batch (''d'' @ String_int (int 3))) \<noteq> DISPLAY_IMG_BYTE_LEN
     \<and> dimg (fst (HandleDisplayUpload upload_batch boot)) ! 3 = (dimg boot ! 3)\<lparr>active := False\<rparr>"
proof -
  have l: "length (dimg boot) = MAX_DISPLAY_IMG" by (simp add: boot_def)
  have n: "(5::nat) < MAX_DISPLAY_IMG" "(3::nat) < MAX_DISPLAY_IMG" by (simp_all add: MAX_DISPLAY_IMG_def)
  have a: "hasArg upload_batch (''d'' @ String_int (int 5))"
    "server_arg upload_batch (''d'' @ String_int (int 5)) = replicate 1024 (CHR ''a'')"
    "hasArg upload_batch (''d'' @ String_int (int 3))"
    "server_arg upload_batch (''d'' @ String_int (int 3)) = replicate 500 (CHR ''x'')"
    by (simp_all add: upload_batch_def hasArg_def server_arg_def String_int_digit digit_char_def)
  show ?thesis
    using HandleDisplayUpload_slots [OF l n(1), of upload_batch]
      HandleDisplayUpload_slots [OF l n(2), of upload_batch] l n a
    by (simp add: DISPLAY_IMG_BYTE_LEN_def)
qed

text \<open>
  C8. \<^verbatim>\<open>HandleDisplaySet\<close> overwrites exactly the fields present in the request, leaves
  every other variable as it was, stamps \<open>display_last_set\<close> with the clock of this pass
  whatever the request holds (also when it holds nothing), and always answers 200 with
  the text of thanks. Posting \<open>watt = 5\<close> at 100 ms and \<open>wattavg = 6\<close> at 200 ms leaves
  both values stored and the stamp at 200.
\<close>

theorem HandleDisplaySet_fields:
  "HandleDisplaySet as st =
     (st\<lparr>display_last_set := currentMillis st,
         custom_watt := (if hasArg as ''watt'' then server_arg as ''watt'' else custom_watt st),
         custom_wattavg := (if hasArg as ''wattavg'' then server_arg as ''wattavg'' else custom_wattavg st),
         custom_water := (if hasArg as ''water'' then server_arg as ''water'' else custom_water st),
         custom_watertoday :=
           (if hasArg as ''watertoday'' then server_arg as ''watertoday'' else custom_watertoday st),
         custom_garage := (if hasArg as ''garage'' then server_arg as ''garage'' else custom_garage st),
         custom_garagetime :=
           (if hasArg as ''garagetime'' then server_arg as ''garagetime'' else custom_garagetime st),
         oledInterval :=
           (if hasArg as ''oledInterval'' then word_of_int (atoi (server_arg as ''oledInterval''))
            else oledInterval st)\<rparr>,
      \<lparr>status = 200, content_type = ''text/html'', body = ''Thank you.\<newline>''\<rparr>)
   \<and> display_last_set (fst (HandleDisplaySet [] st)) = currentMillis st
   \<and> (case HandleDisplaySet [(''watt'', ''5'')] (st\<lparr>currentMillis := 100\<rparr>) of
         (s1, r1) \<Rightarrow>
           (case HandleDisplaySet [(''wattavg'', ''6'')] (s1\<lparr>currentMillis := 200\<rparr>) of
              (s2, r2) \<Rightarrow>
                custom_watt s2 = ''5'' \<and> custom_wattavg s2 = ''6'' \<and> display_last_set s2 = 200))"
proof -
  have 1: "HandleDisplaySet as st =
     (st\<lparr>display_last_set := currentMillis st,
         custom_watt := (if hasArg as ''watt'' then server_arg as ''watt'' else custom_watt st),
         custom_wattavg := (if hasArg as ''wattavg'' then server_arg as ''wattavg'' else custom_wattavg st),
         custom_water := (if hasArg as ''water'' then server_arg as ''water'' else custom_water st),
         custom_watertoday :=
           (if hasArg as ''watertoday'' then server_arg as ''watertoday'' else custom_watertoday st),
         custom_garage := (if hasArg as ''garage'' then server_arg as ''garage'' else custom_garage st),
         custom_garagetime :=
           (if hasArg as ''garagetime'' then server_arg as ''garagetime'' else custom_garagetime st),
         oledInterval :=
           (if hasArg as ''oledInterval'' then word_of_int (atoi (server_arg as ''oledInterval''))
            else oledInterval st)\<rparr>,
      \<lparr>status = 200, content_type = ''text/html'', body = ''Thank you.\<newline>''\<rparr>)" for as st
    by (simp add: HandleDisplaySet_def Let_def)
  show ?thesis
    by (simp add: 1 hasArg_def server_arg_def)
qed

text \<open>
  C9. The metrics text is the concatenation, in this fixed order, of the blocks for
  aqi and pm025, nox, tvoc, rco2, atmp and rhum, each present exactly when its capability
  flag is set and its value is not negative and absent as a whole otherwise, followed by
  the uptime block, which is always present.
\<close>

theorem GenerateMetrics_blocks:
  "GenerateMetrics cfg bd st =
     (if hasPM cfg \<and> 0 \<le> pm25 st
      then metric_block (id_string cfg bd) ''aqi'' ''Particulate Matter AQI value''
             (String_int (PM_TO_AQI_US (pm25 st)))
           @ metric_block (id_string cfg bd) ''pm025'' ''Particulate Matter PM2.5 value''
               (String_int (pm25 st))
      else [])
     @ (if hasSGP41 cfg \<and> 0 \<le> NOX st
        then metric_block (id_string cfg bd) ''nox'' ''Nitrogen Oxides (NOx) value'' (String_int (NOX st))
        else [])
     @ (if hasSGP41 cfg \<and> 0 \<le> TVOC st
        then metric_block (id_string cfg bd) ''tvoc'' ''Total volatile organic compounds (TVOC) value''
               (String_int (TVOC st))
        else [])
     @ (if hasCO2 cfg \<and> 0 \<le> Co2 st
        then metric_block (id_string cfg bd) ''rco2'' ''CO2 value, in ppm'' (String_int (Co2 st))
        else [])
     @ (if hasSHT cfg \<and> 0 \<le> tempf st
        then metric_block (id_string cfg bd) ''atmp'' ''Temperature, in degrees Fahrenheit''
               (String_float bd (tempf st))
        else [])
     @ (if hasSHT cfg \<and> 0 \<le> hum st
        then metric_block (id_string cfg bd) ''rhum'' ''Relative humidity, in percent'' (String_int (hum st))
        else [])
     @ metric_block (id_string cfg bd) ''uptimesec'' ''Seconds since boot''
         (String_nat (unat (currentMillis st div 1000)))"
  unfolding GenerateMetrics_def Let_def id_string_def [symmetric]
  by (simp only: metrics_pm_eq metrics_nox_eq metrics_tvoc_eq metrics_co2_eq metrics_atmp_eq
      metrics_rhum_eq metrics_uptime_eq append_Nil append_assoc)

end
